theory Spec2Isabelle
  imports Main "HOL-Library.Word"
begin

section \<open>Data model\<close>

text \<open>
  The transport layer of the RTP stack: \<^verbatim>\<open>transportTCP.go\<close> and the multicast
  transport. Bytes are 8-bit words, Go's \<^verbatim>\<open>int\<close> is modelled by \<open>int\<close> (no
  arithmetic of the transports comes near 64 bits: the only arithmetic is \<^verbatim>\<open>n-2\<close>
  on a byte count).
\<close>

type_synonym byte = "8 word"
type_synonym IP = "byte list"

text \<open>\<^verbatim>\<open>net.UDPAddr\<close> and \<^verbatim>\<open>net.TCPAddr\<close> of the Go library: both are
  \<^verbatim>\<open>{IP, Port, Zone}\<close>.\<close>

record SockAddr =
  IP :: IP
  Port :: int
  Zone :: string

text \<open>
  Modelled from the spec: the types \<^verbatim>\<open>Address\<close>, \<^verbatim>\<open>DataPacket\<close> and
  \<^verbatim>\<open>CtrlPacket\<close> are declared outside the two transport files. An Address is the
  triple of IP address, data port and control port; a packet is a byte buffer, the count
  \<^verbatim>\<open>inUse\<close> of valid bytes and the sender's address \<^verbatim>\<open>fromAddr\<close>. Data and
  control packets have the same fields; the kind of a packet is the callback that
  delivers it (\<^verbatim>\<open>OnRecvData\<close> or \<^verbatim>\<open>OnRecvCtrl\<close>).
\<close>

record Address =
  IpAddr :: IP
  DataPort :: int
  CtrlPort :: int

record RawPacket =
  buffer :: "byte list"
  inUse :: int
  fromAddr :: Address

text \<open>
  Modelled from the spec: \<^verbatim>\<open>newDataPacket()\<close> and \<^verbatim>\<open>newCtrlPacket()\<close> are
  defined outside the two transport files; they allocate a zeroed packet with
  \<^verbatim>\<open>inUse = 0\<close> whose buffer has the capacity of the buffer-size constant shared by
  all backends. The constant \<^verbatim>\<open>defaultBufferSize\<close> is declared outside the two
  files as well and is a parameter of every definition that uses it.
\<close>

definition newDataPacket :: "nat \<Rightarrow> RawPacket" where
  "newDataPacket defaultBufferSize =
     \<lparr>buffer = replicate defaultBufferSize 0, inUse = 0,
      fromAddr = \<lparr>IpAddr = [], DataPort = 0, CtrlPort = 0\<rparr>\<rparr>"

definition newCtrlPacket :: "nat \<Rightarrow> RawPacket" where
  "newCtrlPacket defaultBufferSize =
     \<lparr>buffer = replicate defaultBufferSize 0, inUse = 0,
      fromAddr = \<lparr>IpAddr = [], DataPort = 0, CtrlPort = 0\<rparr>\<rparr>"

subsection \<open>Go slices and \<^verbatim>\<open>copy\<close>\<close>

text \<open>
  \<^verbatim>\<open>a[lo:hi]\<close> panics unless \<open>0 \<le> lo \<le> hi \<le> cap a\<close>; the panic is the value
  \<open>None\<close>. \<^verbatim>\<open>copy(dst, src)\<close> overwrites the first \<open>min (len dst) (len src)\<close>
  elements of \<open>dst\<close> and returns that count.
\<close>

definition go_slice :: "'a list \<Rightarrow> int \<Rightarrow> int \<Rightarrow> 'a list option" where
  "go_slice xs lo hi =
     (if 0 \<le> lo \<and> lo \<le> hi \<and> hi \<le> int (length xs)
      then Some (take (nat (hi - lo)) (drop (nat lo) xs))
      else None)"

definition go_copy :: "'a list \<Rightarrow> 'a list \<Rightarrow> 'a list" where
  "go_copy dst src = take (length dst) src @ drop (length src) dst"

definition copied :: "'a list \<Rightarrow> 'a list \<Rightarrow> nat" where
  "copied dst src = min (length dst) (length src)"

subsection \<open>Errors, reads and the calls made on the sockets\<close>

text \<open>
  An \<^verbatim>\<open>error\<close> value of Go: a \<^verbatim>\<open>net.Error\<close> carries the answer of its
  \<^verbatim>\<open>Timeout()\<close> method; any other error does not implement \<^verbatim>\<open>net.Error\<close>;
  \<^verbatim>\<open>fmt.Errorf("...: %w", err)\<close> wraps an error under a prefix. The nil error is
  \<open>None\<close> of \<open>go_error option\<close>.
\<close>

datatype go_error = NetError bool | OtherError | Wrapped string go_error

text \<open>The test \<^verbatim>\<open>if e, ok := err.(net.Error); ok && e.Timeout()\<close>.\<close>

fun is_timeout :: "go_error option \<Rightarrow> bool" where
  "is_timeout (Some (NetError t)) = t"
| "is_timeout _ = False"

text \<open>
  What one \<^verbatim>\<open>Read\<close> or \<^verbatim>\<open>ReadFromUDP\<close> call returns, chosen by the network:
  the bytes that arrived (the call stores as many of them as the buffer holds and returns
  that count \<open>n\<close>), the sender's address (\<^verbatim>\<open>ReadFromUDP\<close> only) and the error.
\<close>

record read_result =
  rr_data :: "byte list"
  rr_addr :: SockAddr
  rr_err :: "go_error option"

datatype conn = DataConn | CtrlConn

text \<open>Modelled from the spec: the termination values sent on the end channel
  (their declaration is outside the two transport files).\<close>

datatype TransportEndValue = DataTransportRecvStopped | CtrlTransportRecvStopped

type_synonym chan = nat

text \<open>An upper layer implementing \<^verbatim>\<open>TransportRecv\<close>: the transport itself (the
  default set by the constructors) or a layer installed with \<^verbatim>\<open>SetCallUpper\<close>.\<close>

datatype TransportRecv = SelfTransport | UpperLayer nat

text \<open>The calls a receive loop makes on its socket, its upper layer and the end
  channel, in the order it makes them.\<close>

datatype event =
    SetReadDeadline conn nat
  | Read conn
  | OnRecvData TransportRecv RawPacket
  | OnRecvCtrl TransportRecv RawPacket
  | Close conn
  | Send chan TransportEndValue

text \<open>The call a writer makes on a socket.\<close>

datatype net_call = WriteToUDP conn "byte list" SockAddr

subsection \<open>The transport and its receive loop\<close>

text \<open>
  Where the goroutine of a receive loop stands:
  \<^item> \<open>Idle\<close>: no goroutine has been started;
  \<^item> \<open>Spawned\<close>: \<^verbatim>\<open>go tp.readDataPacket()\<close> has run, the goroutine has not yet
    executed its first statement;
  \<^item> \<open>LoopTop\<close>: at the head of the \<^verbatim>\<open>for\<close> body, before \<^verbatim>\<open>SetReadDeadline\<close>;
  \<^item> \<open>Reading\<close>: inside the blocking read;
  \<^item> \<open>Delivering rp\<close>: the read has returned without error, the stop flag has been
    tested and found unset, and the packet \<open>rp\<close> has been built; before the test of
    \<^verbatim>\<open>tp.callUpper\<close> and the callback;
  \<^item> \<open>Closing\<close>: after a \<^verbatim>\<open>break\<close>, before \<^verbatim>\<open>Close()\<close>;
  \<^item> \<open>Sending\<close>: before the send on \<^verbatim>\<open>tp.transportEnd\<close>;
  \<^item> \<open>BlockedOnNilChan\<close>: blocked for ever in a send on a nil channel;
  \<^item> \<open>Terminated\<close>: the function has returned;
  \<^item> \<open>Panicked\<close>: a run-time panic has unwound the goroutine.
\<close>

datatype pc = Idle | Spawned | LoopTop | Reading | Delivering RawPacket | Closing | Sending
  | BlockedOnNilChan | Terminated | Panicked

text \<open>Where the anonymous goroutine of \<^verbatim>\<open>TransportTCP.ListenOnTransports\<close>
  stands: not started, started, returned, or unwound by a panic.\<close>

datatype listener_pc = NoListener | ListenerSpawned | ListenerReturned | ListenerPanicked

text \<open>
  The fields of a transport that the receive path uses (\<^verbatim>\<open>TransportCommon\<close>:
  the two stop flags and the end channel, \<open>None\<close> for a nil channel;
  \<^verbatim>\<open>callUpper\<close>; whether \<^verbatim>\<open>dataConn\<close> has been assigned a socket; for TCP
  \<^verbatim>\<open>remoteAddrRtp\<close>, \<open>None\<close> for nil), the locals of the loop goroutine
  (\<open>buf\<close>, the packet \<open>rpkt\<close> that \<^verbatim>\<open>rp\<close> last pointed to, the position \<open>pc\<close>), the position
  of the TCP listener goroutine, and the calls the loop has made so far.
\<close>

record world =
  dataRecvStop :: bool
  ctrlRecvStop :: bool
  transportEnd :: "chan option"
  callUpper :: "TransportRecv option"
  hasDataConn :: bool
  remoteAddrRtp :: "SockAddr option"
  listener :: listener_pc
  buf :: "byte list"
  rpkt :: "RawPacket option"
  pc :: pc
  trace :: "event list"

text \<open>\<^verbatim>\<open>CloseRecv\<close>, \<^verbatim>\<open>SetEndChannel\<close> and \<^verbatim>\<open>SetCallUpper\<close> have the same
  body in both transports.\<close>

definition CloseRecv :: "world \<Rightarrow> world" where
  "CloseRecv tp = tp\<lparr>dataRecvStop := True, ctrlRecvStop := True\<rparr>"

definition SetEndChannel :: "chan option \<Rightarrow> world \<Rightarrow> world" where
  "SetEndChannel ch tp = tp\<lparr>transportEnd := ch\<rparr>"

definition SetCallUpper :: "TransportRecv option \<Rightarrow> world \<Rightarrow> world" where
  "SetCallUpper upper tp = tp\<lparr>callUpper := upper\<rparr>"

text \<open>
  \<^verbatim>\<open>TransportTCP.readDataPacket\<close>, one atomic step of its goroutine at a time. The
  read result \<open>r\<close> is used by the step that leaves \<open>Reading\<close> only. The stop flag is
  tested after the read has returned; a packet is built from \<^verbatim>\<open>buf[2:n]\<close>, which
  panics for \<open>n < 2\<close>, and \<^verbatim>\<open>tp.remoteAddrRtp.IP\<close> panics on a nil address.
  The steps, by the lines of the source: the reset of the flag (93); the deadline and the
  start of the read (95, 96); the return of the read with the three tests and the
  construction of the packet (96 to 111); the test of \<^verbatim>\<open>tp.callUpper\<close> and the
  callback (112 to 114); the close (116); the send (117). The owner's calls can fall
  between any two steps, so also between the test of the stop flag (97) and the callback
  (113). The statements between that test and the callback (100 to 111) use only locals
  of the goroutine and \<^verbatim>\<open>tp.remoteAddrRtp\<close>, which the owner never writes, so they
  are in one step with the test. The callback of the upper layer is taken to return, and
  a send on a channel that is not nil is taken to complete (the owner receives); a send
  on a nil channel never does.
\<close>

definition TransportTCP_readDataPacket :: "nat \<Rightarrow> read_result \<Rightarrow> world \<Rightarrow> world" where
  "TransportTCP_readDataPacket defaultBufferSize r tp =
    (case pc tp of
       Spawned \<Rightarrow>
         tp\<lparr>buf := replicate defaultBufferSize 0, dataRecvStop := False, pc := LoopTop\<rparr>
     | LoopTop \<Rightarrow>
         tp\<lparr>trace := trace tp @ [SetReadDeadline DataConn 20, Read DataConn], pc := Reading\<rparr>
     | Reading \<Rightarrow>
        (let n = int (copied (buf tp) (rr_data r));
             tp1 = tp\<lparr>buf := go_copy (buf tp) (rr_data r)\<rparr>
         in if dataRecvStop tp1 then tp1\<lparr>pc := Closing\<rparr>
            else if is_timeout (rr_err r) then tp1\<lparr>pc := LoopTop\<rparr>
            else if rr_err r \<noteq> None then tp1\<lparr>pc := Closing\<rparr>
            else
              (let rp0 = newDataPacket defaultBufferSize
               in case remoteAddrRtp tp1 of
                    None \<Rightarrow> tp1\<lparr>rpkt := Some rp0, pc := Panicked\<rparr>
                  | Some ra \<Rightarrow>
                     (let rp1 = rp0\<lparr>fromAddr := (fromAddr rp0)\<lparr>IpAddr := IP ra\<rparr>\<rparr>;
                          rp2 = rp1\<lparr>fromAddr := (fromAddr rp1)\<lparr>DataPort := Port ra\<rparr>\<rparr>;
                          rp3 = rp2\<lparr>fromAddr := (fromAddr rp2)\<lparr>CtrlPort := 0\<rparr>\<rparr>;
                          rp4 = rp3\<lparr>inUse := n - 2\<rparr>
                      in case go_slice (buf tp1) 2 n of
                           None \<Rightarrow> tp1\<lparr>rpkt := Some rp4, pc := Panicked\<rparr>
                         | Some src \<Rightarrow>
                            (let rp5 = rp4\<lparr>buffer := go_copy (buffer rp4) src\<rparr>
                             in tp1\<lparr>rpkt := Some rp5, pc := Delivering rp5\<rparr>))))
     | Delivering rp \<Rightarrow>
        (case callUpper tp of
           None \<Rightarrow> tp\<lparr>pc := LoopTop\<rparr>
         | Some upper \<Rightarrow> tp\<lparr>trace := trace tp @ [OnRecvData upper rp], pc := LoopTop\<rparr>)
     | Closing \<Rightarrow> tp\<lparr>trace := trace tp @ [Close DataConn], pc := Sending\<rparr>
     | Sending \<Rightarrow>
        (case transportEnd tp of
           None \<Rightarrow> tp\<lparr>pc := BlockedOnNilChan\<rparr>
         | Some ch \<Rightarrow>
             tp\<lparr>trace := trace tp @ [Send ch DataTransportRecvStopped], pc := Terminated\<rparr>)
     | _ \<Rightarrow> tp)"

text \<open>\<^verbatim>\<open>TransportMulticast.readDataPacket\<close>: the sender's address comes from
  \<^verbatim>\<open>ReadFromUDP\<close>, and the whole of \<^verbatim>\<open>buf[0:n]\<close> is the packet. The steps
  are those of the TCP loop: the reset (line 192); the deadline and the start of the read
  (194, 195); the return of the read, the tests and the construction of the packet (195 to
  210); the test of \<^verbatim>\<open>tp.callUpper\<close> and the callback (212 to 214); the close (216);
  the send (217).\<close>

definition TransportMulticast_readDataPacket ::
  "nat \<Rightarrow> read_result \<Rightarrow> world \<Rightarrow> world" where
  "TransportMulticast_readDataPacket defaultBufferSize r tp =
    (case pc tp of
       Spawned \<Rightarrow>
         tp\<lparr>buf := replicate defaultBufferSize 0, dataRecvStop := False, pc := LoopTop\<rparr>
     | LoopTop \<Rightarrow>
         tp\<lparr>trace := trace tp @ [SetReadDeadline DataConn 20, Read DataConn], pc := Reading\<rparr>
     | Reading \<Rightarrow>
        (let n = int (copied (buf tp) (rr_data r));
             addr = rr_addr r;
             tp1 = tp\<lparr>buf := go_copy (buf tp) (rr_data r)\<rparr>
         in if dataRecvStop tp1 then tp1\<lparr>pc := Closing\<rparr>
            else if is_timeout (rr_err r) then tp1\<lparr>pc := LoopTop\<rparr>
            else if rr_err r \<noteq> None then tp1\<lparr>pc := Closing\<rparr>
            else
              (let rp0 = newDataPacket defaultBufferSize;
                   rp1 = rp0\<lparr>fromAddr := (fromAddr rp0)\<lparr>IpAddr := IP addr\<rparr>\<rparr>;
                   rp2 = rp1\<lparr>fromAddr := (fromAddr rp1)\<lparr>DataPort := Port addr\<rparr>\<rparr>;
                   rp3 = rp2\<lparr>fromAddr := (fromAddr rp2)\<lparr>CtrlPort := 0\<rparr>\<rparr>;
                   rp4 = rp3\<lparr>inUse := n\<rparr>
               in case go_slice (buf tp1) 0 n of
                    None \<Rightarrow> tp1\<lparr>rpkt := Some rp4, pc := Panicked\<rparr>
                  | Some src \<Rightarrow>
                     (let rp5 = rp4\<lparr>buffer := go_copy (buffer rp4) src\<rparr>
                      in tp1\<lparr>rpkt := Some rp5, pc := Delivering rp5\<rparr>)))
     | Delivering rp \<Rightarrow>
        (case callUpper tp of
           None \<Rightarrow> tp\<lparr>pc := LoopTop\<rparr>
         | Some upper \<Rightarrow> tp\<lparr>trace := trace tp @ [OnRecvData upper rp], pc := LoopTop\<rparr>)
     | Closing \<Rightarrow> tp\<lparr>trace := trace tp @ [Close DataConn], pc := Sending\<rparr>
     | Sending \<Rightarrow>
        (case transportEnd tp of
           None \<Rightarrow> tp\<lparr>pc := BlockedOnNilChan\<rparr>
         | Some ch \<Rightarrow>
             tp\<lparr>trace := trace tp @ [Send ch DataTransportRecvStopped], pc := Terminated\<rparr>)
     | _ \<Rightarrow> tp)"

text \<open>\<^verbatim>\<open>TransportMulticast.readCtrlPacket\<close>: the control socket, the control stop
  flag, a deadline of 100 ms, and the sender's port stored in \<^verbatim>\<open>CtrlPort\<close>. The
  steps: the reset (line 223); the deadline and the start of the read (225, 226); the
  return of the read, the tests and the construction of the packet (226 to 241); the test
  of \<^verbatim>\<open>tp.callUpper\<close> and the callback (243 to 245); the close (247); the send
  (248).\<close>

definition TransportMulticast_readCtrlPacket ::
  "nat \<Rightarrow> read_result \<Rightarrow> world \<Rightarrow> world" where
  "TransportMulticast_readCtrlPacket defaultBufferSize r tp =
    (case pc tp of
       Spawned \<Rightarrow>
         tp\<lparr>buf := replicate defaultBufferSize 0, ctrlRecvStop := False, pc := LoopTop\<rparr>
     | LoopTop \<Rightarrow>
         tp\<lparr>trace := trace tp @ [SetReadDeadline CtrlConn 100, Read CtrlConn], pc := Reading\<rparr>
     | Reading \<Rightarrow>
        (let n = int (copied (buf tp) (rr_data r));
             addr = rr_addr r;
             tp1 = tp\<lparr>buf := go_copy (buf tp) (rr_data r)\<rparr>
         in if ctrlRecvStop tp1 then tp1\<lparr>pc := Closing\<rparr>
            else if is_timeout (rr_err r) then tp1\<lparr>pc := LoopTop\<rparr>
            else if rr_err r \<noteq> None then tp1\<lparr>pc := Closing\<rparr>
            else
              (let rp0 = newCtrlPacket defaultBufferSize;
                   rp1 = rp0\<lparr>fromAddr := (fromAddr rp0)\<lparr>IpAddr := IP addr\<rparr>\<rparr>;
                   rp2 = rp1\<lparr>fromAddr := (fromAddr rp1)\<lparr>CtrlPort := Port addr\<rparr>\<rparr>;
                   rp3 = rp2\<lparr>fromAddr := (fromAddr rp2)\<lparr>DataPort := 0\<rparr>\<rparr>;
                   rp4 = rp3\<lparr>inUse := n\<rparr>
               in case go_slice (buf tp1) 0 n of
                    None \<Rightarrow> tp1\<lparr>rpkt := Some rp4, pc := Panicked\<rparr>
                  | Some src \<Rightarrow>
                     (let rp5 = rp4\<lparr>buffer := go_copy (buffer rp4) src\<rparr>
                      in tp1\<lparr>rpkt := Some rp5, pc := Delivering rp5\<rparr>)))
     | Delivering rp \<Rightarrow>
        (case callUpper tp of
           None \<Rightarrow> tp\<lparr>pc := LoopTop\<rparr>
         | Some upper \<Rightarrow> tp\<lparr>trace := trace tp @ [OnRecvCtrl upper rp], pc := LoopTop\<rparr>)
     | Closing \<Rightarrow> tp\<lparr>trace := trace tp @ [Close CtrlConn], pc := Sending\<rparr>
     | Sending \<Rightarrow>
        (case transportEnd tp of
           None \<Rightarrow> tp\<lparr>pc := BlockedOnNilChan\<rparr>
         | Some ch \<Rightarrow>
             tp\<lparr>trace := trace tp @ [Send ch CtrlTransportRecvStopped], pc := Terminated\<rparr>)
     | _ \<Rightarrow> tp)"

subsection \<open>The three loops and their owner\<close>

datatype loop = TCPData | McastData | McastCtrl

fun readPacket :: "nat \<Rightarrow> loop \<Rightarrow> read_result \<Rightarrow> world \<Rightarrow> world" where
  "readPacket sz TCPData = TransportTCP_readDataPacket sz"
| "readPacket sz McastData = TransportMulticast_readDataPacket sz"
| "readPacket sz McastCtrl = TransportMulticast_readCtrlPacket sz"

text \<open>The stop flag a loop polls, the socket it owns and the value it sends at its end.\<close>

fun stop_flag :: "loop \<Rightarrow> world \<Rightarrow> bool" where
  "stop_flag TCPData tp = dataRecvStop tp"
| "stop_flag McastData tp = dataRecvStop tp"
| "stop_flag McastCtrl tp = ctrlRecvStop tp"

fun conn_of :: "loop \<Rightarrow> conn" where
  "conn_of TCPData = DataConn"
| "conn_of McastData = DataConn"
| "conn_of McastCtrl = CtrlConn"

fun end_of :: "loop \<Rightarrow> TransportEndValue" where
  "end_of TCPData = DataTransportRecvStopped"
| "end_of McastData = DataTransportRecvStopped"
| "end_of McastCtrl = CtrlTransportRecvStopped"

text \<open>
  The loop goroutine runs beside its owner. A schedule is the list of atomic actions in
  the order they take effect: a step of the loop (with the result the network gives to
  the read, used if the step ends a read) or a call of the owner.
\<close>

datatype action =
    Loop read_result
  | OwnerCloseRecv
  | OwnerSetEndChannel "chan option"
  | OwnerSetCallUpper "TransportRecv option"

fun step :: "nat \<Rightarrow> loop \<Rightarrow> action \<Rightarrow> world \<Rightarrow> world" where
  "step sz k (Loop r) tp = readPacket sz k r tp"
| "step sz k OwnerCloseRecv tp = CloseRecv tp"
| "step sz k (OwnerSetEndChannel ch) tp = SetEndChannel ch tp"
| "step sz k (OwnerSetCallUpper upper) tp = SetCallUpper upper tp"

fun run :: "nat \<Rightarrow> loop \<Rightarrow> action list \<Rightarrow> world \<Rightarrow> world" where
  "run sz k [] tp = tp"
| "run sz k (a # as) tp = run sz k as (step sz k a tp)"

text \<open>A transport as its constructor leaves it: no socket, no goroutine, flags unset,
  no end channel, itself as upper layer.\<close>

definition new_transport :: world where
  "new_transport =
     \<lparr>dataRecvStop = False, ctrlRecvStop = False, transportEnd = None,
      callUpper = Some SelfTransport, hasDataConn = False, remoteAddrRtp = None,
      listener = NoListener, buf = [], rpkt = None, pc = Idle, trace = []\<rparr>"

subsection \<open>Socket setup\<close>

text \<open>
  \<^verbatim>\<open>TransportMulticast.ListenOnTransports\<close>. The operating system decides whether
  \<^verbatim>\<open>ListenPacket\<close>, \<^verbatim>\<open>JoinGroup\<close> and \<^verbatim>\<open>SetTOS\<close> fail. A failure of the first two
  is returned wrapped; a failure of \<^verbatim>\<open>SetTOS\<close> is printed only. The result is the
  returned error and the transport.
\<close>

record mcast_setup =
  ListenPacket_err :: "go_error option"
  JoinGroup_err :: "go_error option"
  SetTOS_err :: "go_error option"

definition TransportMulticast_ListenOnTransports ::
  "mcast_setup \<Rightarrow> world \<Rightarrow> go_error option \<times> world" where
  "TransportMulticast_ListenOnTransports os tp =
     (case ListenPacket_err os of
        Some err \<Rightarrow> (Some (Wrapped ''ListenPacket'' err), tp)
      | None \<Rightarrow>
         (let tp1 = tp\<lparr>hasDataConn := True\<rparr>
          in case JoinGroup_err os of
               Some err \<Rightarrow> (Some (Wrapped ''JoinGroup'' err), tp1)
             | None \<Rightarrow> (None, tp1\<lparr>pc := Spawned\<rparr>)))"

text \<open>
  The second text of \<^verbatim>\<open>TransportMulticast.ListenOnTransports\<close> in the sources, which
  binds with \<^verbatim>\<open>net.ListenMulticastUDP\<close>: its error is returned as it is; failures of
  \<^verbatim>\<open>setReuseAddr\<close> and \<^verbatim>\<open>SetTOS\<close> are printed only.
\<close>

record mcast_setup2 =
  ListenMulticastUDP_err :: "go_error option"
  setReuseAddr_err :: "go_error option"
  SetTOS2_err :: "go_error option"

definition TransportMulticast_ListenOnTransports2 ::
  "mcast_setup2 \<Rightarrow> world \<Rightarrow> go_error option \<times> world" where
  "TransportMulticast_ListenOnTransports2 os tp =
     (case ListenMulticastUDP_err os of
        Some err \<Rightarrow> (Some err, tp)
      | None \<Rightarrow> (None, tp\<lparr>hasDataConn := True, pc := Spawned\<rparr>))"

text \<open>
  \<^verbatim>\<open>TransportTCP.ListenOnTransports\<close> starts an anonymous goroutine and returns its
  named result \<^verbatim>\<open>err\<close>, which nothing assigns. The goroutine listens; on a failure
  it returns (its \<^verbatim>\<open>err\<close> is a variable of its own). Otherwise it accepts one
  connection, ignoring the error of \<^verbatim>\<open>AcceptTCP\<close> (after a failed accept the call
  \<^verbatim>\<open>tp.dataConn.RemoteAddr().Network()\<close> panics), stores in
  \<^verbatim>\<open>tp.remoteAddrRtp\<close> what \<^verbatim>\<open>net.ResolveTCPAddr\<close> returns for the peer's address
  string, ignoring the error (nil address), and starts the receive loop. The operating
  system and the library decide the three results: the error of \<^verbatim>\<open>ListenTCP\<close>,
  whether \<^verbatim>\<open>AcceptTCP\<close> returns a connection, and the address resolved.
\<close>

record tcp_setup =
  ListenTCP_err :: "go_error option"
  AcceptTCP_ok :: bool
  ResolveTCPAddr_res :: "SockAddr option"

definition TransportTCP_ListenOnTransports :: "world \<Rightarrow> go_error option \<times> world" where
  "TransportTCP_ListenOnTransports tp = (None, tp\<lparr>listener := ListenerSpawned\<rparr>)"

definition TransportTCP_listen_goroutine :: "tcp_setup \<Rightarrow> world \<Rightarrow> world" where
  "TransportTCP_listen_goroutine os tp =
     (if listener tp \<noteq> ListenerSpawned then tp
      else case ListenTCP_err os of
             Some err \<Rightarrow> tp\<lparr>listener := ListenerReturned\<rparr>
           | None \<Rightarrow>
              (if \<not> AcceptTCP_ok os then tp\<lparr>listener := ListenerPanicked\<rparr>
               else tp\<lparr>hasDataConn := True,
                       remoteAddrRtp := ResolveTCPAddr_res os,
                       pc := Spawned,
                       listener := ListenerReturned\<rparr>))"

subsection \<open>Writers of the multicast transport\<close>

text \<open>
  \<^verbatim>\<open>WriteDataTo\<close> and \<^verbatim>\<open>WriteCtrlTo\<close> make one \<^verbatim>\<open>WriteToUDP\<close> call and return
  what it returns. The model gives the call made; \<open>None\<close> is the panic of
  \<^verbatim>\<open>rp.buffer[0:rp.inUse]\<close> out of range.
\<close>

definition TransportMulticast_WriteDataTo :: "RawPacket \<Rightarrow> Address \<Rightarrow> net_call option" where
  "TransportMulticast_WriteDataTo rp addr =
     (case go_slice (buffer rp) 0 (inUse rp) of
        None \<Rightarrow> None
      | Some bs \<Rightarrow>
          Some (WriteToUDP DataConn bs \<lparr>IP = IpAddr addr, Port = DataPort addr, Zone = []\<rparr>))"

definition TransportMulticast_WriteCtrlTo :: "RawPacket \<Rightarrow> Address \<Rightarrow> net_call option" where
  "TransportMulticast_WriteCtrlTo rp addr =
     (case go_slice (buffer rp) 0 (inUse rp) of
        None \<Rightarrow> None
      | Some bs \<Rightarrow>
          Some (WriteToUDP DataConn bs \<lparr>IP = IpAddr addr, Port = DataPort addr, Zone = []\<rparr>))"

subsection \<open>Observations on a run\<close>

text \<open>The read deadline a loop arms, in milliseconds.\<close>

fun deadline_of :: "loop \<Rightarrow> nat" where
  "deadline_of TCPData = 20"
| "deadline_of McastData = 20"
| "deadline_of McastCtrl = 100"

fun is_read :: "event \<Rightarrow> bool" where
  "is_read (Read c) = True"
| "is_read e = False"

fun is_delivery :: "event \<Rightarrow> bool" where
  "is_delivery (OnRecvData u p) = True"
| "is_delivery (OnRecvCtrl u p) = True"
| "is_delivery e = False"

fun is_close :: "event \<Rightarrow> bool" where
  "is_close (Close c) = True"
| "is_close e = False"

fun is_send :: "event \<Rightarrow> bool" where
  "is_send (Send ch v) = True"
| "is_send e = False"

text \<open>The goroutine is inside its \<^verbatim>\<open>for\<close> loop.\<close>

fun in_loop :: "pc \<Rightarrow> bool" where
  "in_loop LoopTop = True"
| "in_loop Reading = True"
| "in_loop (Delivering rp) = True"
| "in_loop p = False"

text \<open>The goroutine holds a packet that it has not yet handed to the upper layer.\<close>

fun is_delivering :: "pc \<Rightarrow> bool" where
  "is_delivering (Delivering rp) = True"
| "is_delivering p = False"

text \<open>The callback of a loop's kind, and the socket address of the sender of the bytes
  that a read returns: the address \<^verbatim>\<open>ReadFromUDP\<close> returns with them for UDP, the
  peer of the accepted connection, \<^verbatim>\<open>tp.remoteAddrRtp\<close>, for TCP.\<close>

fun callback :: "loop \<Rightarrow> TransportRecv \<Rightarrow> RawPacket \<Rightarrow> event" where
  "callback TCPData upper rp = OnRecvData upper rp"
| "callback McastData upper rp = OnRecvData upper rp"
| "callback McastCtrl upper rp = OnRecvCtrl upper rp"

fun sender_of :: "loop \<Rightarrow> world \<Rightarrow> read_result \<Rightarrow> SockAddr option" where
  "sender_of TCPData tp r = remoteAddrRtp tp"
| "sender_of McastData tp r = Some (rr_addr r)"
| "sender_of McastCtrl tp r = Some (rr_addr r)"

text \<open>The packet carries the address and the port of the sender \<open>a\<close> in the port field
  of the loop's kind, and zero in the other port field.\<close>

fun stamped :: "loop \<Rightarrow> SockAddr \<Rightarrow> RawPacket \<Rightarrow> bool" where
  "stamped TCPData a p = (fromAddr p = \<lparr>IpAddr = IP a, DataPort = Port a, CtrlPort = 0\<rparr>)"
| "stamped McastData a p = (fromAddr p = \<lparr>IpAddr = IP a, DataPort = Port a, CtrlPort = 0\<rparr>)"
| "stamped McastCtrl a p = (fromAddr p = \<lparr>IpAddr = IP a, DataPort = 0, CtrlPort = Port a\<rparr>)"

text \<open>Two worlds agree in everything except, possibly, the stop flag of the other
  loop.\<close>

definition same_for_loop :: "loop \<Rightarrow> world \<Rightarrow> world \<Rightarrow> bool" where
  "same_for_loop k a b =
     (stop_flag k a = stop_flag k b \<and> transportEnd a = transportEnd b \<and>
      callUpper a = callUpper b \<and> hasDataConn a = hasDataConn b \<and>
      remoteAddrRtp a = remoteAddrRtp b \<and> listener a = listener b \<and>
      buf a = buf b \<and> rpkt a = rpkt b \<and> pc a = pc b \<and> trace a = trace b)"

text \<open>
  The shape of the calls made so far, by the position of the goroutine: no close and no
  send while it has not passed \<^verbatim>\<open>Close()\<close>; then the close of its own socket as the
  last call; and, once it has returned, that close followed by the send of its own
  termination value as the last two calls, with no other close or send.
\<close>

definition quiet :: "event list \<Rightarrow> bool" where
  "quiet t = list_all (\<lambda>e. \<not> is_close e \<and> \<not> is_send e) t"

fun closed_last :: "loop \<Rightarrow> event list \<Rightarrow> bool" where
  "closed_last k (Close c # before) = (c = conn_of k \<and> quiet before)"
| "closed_last k t = False"

fun sent_last :: "loop \<Rightarrow> event list \<Rightarrow> bool" where
  "sent_last k (Send ch v # before) = (v = end_of k \<and> closed_last k before)"
| "sent_last k t = False"

fun exit_shape :: "loop \<Rightarrow> pc \<Rightarrow> event list \<Rightarrow> bool" where
  "exit_shape k Terminated t = sent_last k (rev t)"
| "exit_shape k Sending t = closed_last k (rev t)"
| "exit_shape k BlockedOnNilChan t = closed_last k (rev t)"
| "exit_shape k p t = quiet t"

text \<open>The count \<^verbatim>\<open>inUse\<close> of a packet lies inside its buffer.\<close>

definition inUse_in_buffer :: "RawPacket \<Rightarrow> bool" where
  "inUse_in_buffer p = (0 \<le> inUse p \<and> inUse p \<le> int (length (buffer p)))"

text \<open>The invariant of a loop that bounds \<^verbatim>\<open>inUse\<close>: the loop's array has
  \<open>sz\<close> bytes from the first step on, and the packet last constructed has its
  \<^verbatim>\<open>inUse\<close> inside its buffer, unless the TCP loop has panicked.\<close>

definition pkt_ok :: "nat \<Rightarrow> loop \<Rightarrow> world \<Rightarrow> bool" where
  "pkt_ok sz k tp =
     ((pc tp = Spawned \<or> length (buf tp) = sz) \<and>
      (case rpkt tp of
         None \<Rightarrow> True
       | Some p \<Rightarrow> inUse_in_buffer p \<or> (k = TCPData \<and> pc tp = Panicked)))"

subsection \<open>Concrete inputs\<close>

definition peer :: SockAddr where
  "peer = \<lparr>IP = [10, 0, 0, 7], Port = 40000, Zone = []\<rparr>"

text \<open>A transport whose receive loop has just been started, with end channel 1.\<close>

definition listening :: world where
  "listening = new_transport\<lparr>transportEnd := Some 1, hasDataConn := True,
     remoteAddrRtp := Some peer, pc := Spawned\<rparr>"

text \<open>The same with no end channel installed.\<close>

definition listening_no_chan :: world where
  "listening_no_chan = new_transport\<lparr>hasDataConn := True,
     remoteAddrRtp := Some peer, pc := Spawned\<rparr>"

definition got :: "byte list \<Rightarrow> read_result" where
  "got bs = \<lparr>rr_data = bs, rr_addr = peer, rr_err = None\<rparr>"

text \<open>A second sender, and a sender whose datagrams have the source port zero.\<close>

definition peer2 :: SockAddr where
  "peer2 = \<lparr>IP = [10, 0, 0, 9], Port = 40002, Zone = []\<rparr>"

definition peer_port0 :: SockAddr where
  "peer_port0 = \<lparr>IP = [10, 0, 0, 7], Port = 0, Zone = []\<rparr>"

definition got_from :: "SockAddr \<Rightarrow> byte list \<Rightarrow> read_result" where
  "got_from a bs = \<lparr>rr_data = bs, rr_addr = a, rr_err = None\<rparr>"

definition timed_out :: read_result where
  "timed_out = \<lparr>rr_data = [], rr_addr = peer, rr_err = Some (NetError True)\<rparr>"

definition conn_reset :: read_result where
  "conn_reset = \<lparr>rr_data = [], rr_addr = peer, rr_err = Some OtherError\<rparr>"

section \<open>Steps of the loops\<close>

lemmas loop_defs = TransportTCP_readDataPacket_def TransportMulticast_readDataPacket_def
  TransportMulticast_readCtrlPacket_def

lemmas owner_defs = CloseRecv_def SetEndChannel_def SetCallUpper_def

lemmas input_defs = peer_def listening_def listening_no_chan_def got_def timed_out_def
  conn_reset_def new_transport_def peer2_def peer_port0_def got_from_def

lemmas eval_defs = loop_defs owner_defs input_defs go_copy_def go_slice_def copied_def
  newDataPacket_def newCtrlPacket_def Let_def

lemma readPacket_Spawned:
  "pc tp = Spawned \<Longrightarrow>
   pc (readPacket sz k r tp) = LoopTop \<and> \<not> stop_flag k (readPacket sz k r tp) \<and>
   trace (readPacket sz k r tp) = trace tp \<and> buf (readPacket sz k r tp) = replicate sz 0 \<and>
   transportEnd (readPacket sz k r tp) = transportEnd tp \<and>
   callUpper (readPacket sz k r tp) = callUpper tp \<and>
   remoteAddrRtp (readPacket sz k r tp) = remoteAddrRtp tp \<and>
   rpkt (readPacket sz k r tp) = rpkt tp"
  by (cases k) (simp_all add: loop_defs)

lemma readPacket_LoopTop:
  "pc tp = LoopTop \<Longrightarrow> readPacket sz k r tp =
     tp\<lparr>trace := trace tp @ [SetReadDeadline (conn_of k) (deadline_of k), Read (conn_of k)],
        pc := Reading\<rparr>"
  by (cases k) (simp_all add: loop_defs)

lemma readPacket_Reading_stop:
  "pc tp = Reading \<Longrightarrow> stop_flag k tp \<Longrightarrow>
   readPacket sz k r tp = tp\<lparr>buf := go_copy (buf tp) (rr_data r), pc := Closing\<rparr>"
  by (cases k) (simp_all add: loop_defs Let_def)



lemma readPacket_Reading_ok:
  "pc tp = Reading \<Longrightarrow> \<not> stop_flag k tp \<Longrightarrow> rr_err r = None \<Longrightarrow>
   \<exists>p. readPacket sz k r tp =
          tp\<lparr>buf := go_copy (buf tp) (rr_data r), rpkt := Some p, pc := Panicked\<rparr>
     \<or> readPacket sz k r tp =
          tp\<lparr>buf := go_copy (buf tp) (rr_data r), rpkt := Some p, pc := Delivering p\<rparr>"
  by (cases k) (auto simp: loop_defs Let_def split: option.splits)

lemma readPacket_Reading_frame:
  "pc tp = Reading \<Longrightarrow>
   trace (readPacket sz k r tp) = trace tp \<and>
   stop_flag k (readPacket sz k r tp) = stop_flag k tp \<and>
   transportEnd (readPacket sz k r tp) = transportEnd tp \<and>
   callUpper (readPacket sz k r tp) = callUpper tp \<and>
   remoteAddrRtp (readPacket sz k r tp) = remoteAddrRtp tp \<and>
   buf (readPacket sz k r tp) = go_copy (buf tp) (rr_data r) \<and>
   (pc (readPacket sz k r tp) = Closing \<or> pc (readPacket sz k r tp) = LoopTop \<or>
    pc (readPacket sz k r tp) = Panicked \<or> is_delivering (pc (readPacket sz k r tp)))"
  by (cases k) (auto simp: loop_defs Let_def split: option.splits)

lemma readPacket_Delivering:
  "pc tp = Delivering p \<Longrightarrow> readPacket sz k r tp =
     tp\<lparr>trace := trace tp @ (case callUpper tp of None \<Rightarrow> [] | Some upper \<Rightarrow> [callback k upper p]),
        pc := LoopTop\<rparr>"
  by (cases k; cases "callUpper tp") (simp_all add: loop_defs)

lemma is_delivery_callback [simp]:
  "is_delivery (callback k upper p)" "\<not> is_read (callback k upper p)"
  "\<not> is_close (callback k upper p)" "\<not> is_send (callback k upper p)"
  by (cases k; simp)+

lemma readPacket_Closing:
  "pc tp = Closing \<Longrightarrow>
   readPacket sz k r tp = tp\<lparr>trace := trace tp @ [Close (conn_of k)], pc := Sending\<rparr>"
  by (cases k) (simp_all add: loop_defs)

lemma readPacket_Sending_nil:
  "pc tp = Sending \<Longrightarrow> transportEnd tp = None \<Longrightarrow>
   readPacket sz k r tp = tp\<lparr>pc := BlockedOnNilChan\<rparr>"
  by (cases k) (simp_all add: loop_defs)

lemma readPacket_Sending_chan:
  "pc tp = Sending \<Longrightarrow> transportEnd tp = Some ch \<Longrightarrow>
   readPacket sz k r tp = tp\<lparr>trace := trace tp @ [Send ch (end_of k)], pc := Terminated\<rparr>"
  by (cases k) (simp_all add: loop_defs)

lemma readPacket_inert:
  "pc tp = Idle \<or> pc tp = BlockedOnNilChan \<or> pc tp = Terminated \<or> pc tp = Panicked \<Longrightarrow>
   readPacket sz k r tp = tp"
  by (cases k) (auto simp: loop_defs)

lemma run_append: "run sz k (as @ bs) tp = run sz k bs (run sz k as tp)"
  by (induction as arbitrary: tp) simp_all



section \<open>Writers\<close>

text \<open>
  C7. For every control packet \<open>rp\<close> (with \<open>inUse\<close> inside its buffer, so that the
  slice \<^verbatim>\<open>rp.buffer[0:rp.inUse]\<close> exists) and every destination address, the multicast
  transport's \<^verbatim>\<open>WriteCtrlTo\<close> makes the call \<^verbatim>\<open>WriteToUDP\<close> on the data connection,
  with the first \<open>inUse\<close> bytes of the buffer, addressed to the destination's IP address
  and its data port: exactly the call that \<^verbatim>\<open>WriteDataTo\<close> makes. Neither the control
  connection nor the control port is used.
\<close>

theorem WriteCtrlTo_sends_on_data_socket_to_data_port:
  assumes "0 \<le> inUse rp" and "inUse rp \<le> int (length (buffer rp))"
  shows "TransportMulticast_WriteCtrlTo rp addr =
           Some (WriteToUDP DataConn (take (nat (inUse rp)) (buffer rp))
                   \<lparr>IP = IpAddr addr, Port = DataPort addr, Zone = []\<rparr>)
         \<and> TransportMulticast_WriteCtrlTo rp addr = TransportMulticast_WriteDataTo rp addr"
  using assms
  by (simp add: TransportMulticast_WriteCtrlTo_def TransportMulticast_WriteDataTo_def
      go_slice_def)

theorem WriteCtrlTo_sends_on_data_socket_witness:
  "(0::int) \<le> 3 \<and> (3::int) \<le> int (length [1, 2, 3, 4 :: byte]) \<and>
   TransportMulticast_WriteCtrlTo
     \<lparr>buffer = [1, 2, 3, 4], inUse = 3,
      fromAddr = \<lparr>IpAddr = [], DataPort = 0, CtrlPort = 0\<rparr>\<rparr>
     \<lparr>IpAddr = [224, 0, 0, 1], DataPort = 5004, CtrlPort = 5005\<rparr>
   = Some (WriteToUDP DataConn [1, 2, 3] \<lparr>IP = [224, 0, 0, 1], Port = 5004, Zone = []\<rparr>)"
  using WriteCtrlTo_sends_on_data_socket_to_data_port
    [of "\<lparr>buffer = [1, 2, 3, 4], inUse = 3,
          fromAddr = \<lparr>IpAddr = [], DataPort = 0, CtrlPort = 0\<rparr>\<rparr>"
        "\<lparr>IpAddr = [224, 0, 0, 1], DataPort = 5004, CtrlPort = 5005\<rparr>"]
  by simp

section \<open>Read errors\<close>



section \<open>The stop flag\<close>

lemma stop_flag_updates [simp]:
  "stop_flag k (tp\<lparr>pc := p\<rparr>) = stop_flag k tp"
  "stop_flag k (tp\<lparr>trace := t\<rparr>) = stop_flag k tp"
  "stop_flag k (tp\<lparr>buf := b\<rparr>) = stop_flag k tp"
  "stop_flag k (tp\<lparr>rpkt := q\<rparr>) = stop_flag k tp"
  "stop_flag k (tp\<lparr>transportEnd := c\<rparr>) = stop_flag k tp"
  "stop_flag k (tp\<lparr>callUpper := u\<rparr>) = stop_flag k tp"
  "stop_flag k (CloseRecv tp)"
  by (cases k; simp add: CloseRecv_def)+

lemma CloseRecv_fields [simp]:
  "pc (CloseRecv tp) = pc tp" "trace (CloseRecv tp) = trace tp"
  "transportEnd (CloseRecv tp) = transportEnd tp"
  "callUpper (CloseRecv tp) = callUpper tp"
  by (simp_all add: CloseRecv_def)

text \<open>With the flag set, a step never starts a delivery, and the reads and deliveries
  still to come are bounded by the position: one read if the loop is at the head of an
  iteration or holds a packet, one delivery if it holds a packet.\<close>

lemma stopped_step:
  assumes "stop_flag k tp" and "pc tp \<noteq> Spawned"
  shows "stop_flag k (step sz k a tp) \<and> pc (step sz k a tp) \<noteq> Spawned \<and>
    (\<not> is_delivering (pc tp) \<longrightarrow>
       \<not> is_delivering (pc (step sz k a tp)) \<and>
       filter is_delivery (trace (step sz k a tp)) = filter is_delivery (trace tp)) \<and>
    length (filter is_delivery (trace (step sz k a tp)))
        + (if is_delivering (pc (step sz k a tp)) then 1 else 0)
      \<le> length (filter is_delivery (trace tp)) + (if is_delivering (pc tp) then 1 else 0) \<and>
    length (filter is_read (trace (step sz k a tp)))
        + (if pc (step sz k a tp) = LoopTop \<or> is_delivering (pc (step sz k a tp)) then 1 else 0)
      \<le> length (filter is_read (trace tp))
        + (if pc tp = LoopTop \<or> is_delivering (pc tp) then 1 else 0)"
proof (cases a)
  case (Loop r)
  show ?thesis
  proof (cases "pc tp")
    case LoopTop
    then show ?thesis using Loop assms by (simp add: readPacket_LoopTop)
  next
    case Reading
    then show ?thesis using Loop assms by (simp add: readPacket_Reading_stop)
  next
    case (Delivering p)
    then show ?thesis using Loop assms
      by (cases "callUpper tp") (simp_all add: readPacket_Delivering)
  next
    case Closing
    then show ?thesis using Loop assms by (simp add: readPacket_Closing)
  next
    case Sending
    then show ?thesis using Loop assms
      by (cases "transportEnd tp")
         (simp_all add: readPacket_Sending_nil readPacket_Sending_chan)
  qed (use Loop assms in \<open>simp_all add: readPacket_inert\<close>)
qed (use assms in \<open>simp_all add: SetEndChannel_def SetCallUpper_def\<close>)

lemma stopped_run:
  "stop_flag k tp \<Longrightarrow> pc tp \<noteq> Spawned \<Longrightarrow>
   stop_flag k (run sz k as tp) \<and>
   (\<not> is_delivering (pc tp) \<longrightarrow>
      filter is_delivery (trace (run sz k as tp)) = filter is_delivery (trace tp)) \<and>
   length (filter is_delivery (trace (run sz k as tp)))
      \<le> length (filter is_delivery (trace tp)) + (if is_delivering (pc tp) then 1 else 0) \<and>
   length (filter is_read (trace (run sz k as tp)))
      \<le> length (filter is_read (trace tp))
        + (if pc tp = LoopTop \<or> is_delivering (pc tp) then 1 else 0)"
proof (induction as arbitrary: tp)
  case Nil
  then show ?case by simp
next
  case (Cons a as)
  note st = stopped_step [OF Cons.prems, of sz a]
  from st have "stop_flag k (step sz k a tp)" "pc (step sz k a tp) \<noteq> Spawned" by simp_all
  from Cons.IH [OF this] st show ?case by (simp split: if_splits)
qed

text \<open>With the flag set, the only packet a loop still delivers is the one it holds.\<close>

lemma stopped_delivers_packet_in_hand_step:
  assumes "stop_flag k tp" and "pc tp \<noteq> Spawned"
    and "(pc tp = Delivering p \<and> filter is_delivery (trace tp) = D) \<or>
         (\<not> is_delivering (pc tp) \<and>
          (filter is_delivery (trace tp) = D \<or>
           (\<exists>upper. filter is_delivery (trace tp) = D @ [callback k upper p])))"
  shows "(pc (step sz k a tp) = Delivering p \<and>
            filter is_delivery (trace (step sz k a tp)) = D) \<or>
         (\<not> is_delivering (pc (step sz k a tp)) \<and>
          (filter is_delivery (trace (step sz k a tp)) = D \<or>
           (\<exists>upper. filter is_delivery (trace (step sz k a tp)) = D @ [callback k upper p])))"
proof (cases "is_delivering (pc tp)")
  case False
  with stopped_step [OF assms(1,2), of sz a] assms(3) show ?thesis by auto
next
  case True
  then have d: "pc tp = Delivering p" "filter is_delivery (trace tp) = D"
    using assms(3) by auto
  show ?thesis
  proof (cases a)
    case (Loop r)
    then show ?thesis using d
      by (cases "callUpper tp") (auto simp: readPacket_Delivering)
  qed (use d in \<open>simp_all add: owner_defs\<close>)
qed

lemma stopped_delivers_packet_in_hand_run:
  "stop_flag k tp \<Longrightarrow> pc tp \<noteq> Spawned \<Longrightarrow>
   (pc tp = Delivering p \<and> filter is_delivery (trace tp) = D) \<or>
   (\<not> is_delivering (pc tp) \<and>
    (filter is_delivery (trace tp) = D \<or>
     (\<exists>upper. filter is_delivery (trace tp) = D @ [callback k upper p]))) \<Longrightarrow>
   filter is_delivery (trace (run sz k as tp)) = D \<or>
   (\<exists>upper. filter is_delivery (trace (run sz k as tp)) = D @ [callback k upper p])"
proof (induction as arbitrary: tp)
  case Nil
  then show ?case by auto
next
  case (Cons a as)
  from stopped_step [OF Cons.prems(1,2), of sz a]
  have "stop_flag k (step sz k a tp)" "pc (step sz k a tp) \<noteq> Spawned" by simp_all
  from Cons.IH [OF this stopped_delivers_packet_in_hand_step [OF Cons.prems, of sz a]]
  show ?case by simp
qed

text \<open>
  C6, as the code has it. The loop tests its stop flag once per iteration, right after
  the read has returned, not at the head of the iteration. Once the owner has set the
  flag with \<^verbatim>\<open>CloseRecv\<close> while the loop is running, there are three cases.
  A loop that is inside a read breaks out when that read returns, whatever it returns,
  with no call added. A loop that is at the head of an iteration first arms its deadline
  and reads once more, and breaks out when that read returns. A loop that has passed the
  test and holds a packet for its upper layer hands that packet over (if an upper layer
  is set), then arms its deadline, reads once more and breaks out when that read returns.
  In every continuation of the run the flag stays set; at most that one read is made;
  nothing is delivered in the first two cases, and in the third nothing but the packet
  in hand, at most once.
\<close>

theorem stop_flag_observed_after_the_read:
  assumes "in_loop (pc tp)"
  shows "(pc tp = Reading \<longrightarrow>
            pc (readPacket sz k r (CloseRecv tp)) = Closing \<and>
            trace (readPacket sz k r (CloseRecv tp)) = trace tp)
       \<and> (pc tp = LoopTop \<longrightarrow>
            pc (readPacket sz k r (CloseRecv tp)) = Reading \<and>
            trace (readPacket sz k r (CloseRecv tp)) =
              trace tp @ [SetReadDeadline (conn_of k) (deadline_of k), Read (conn_of k)] \<and>
            pc (readPacket sz k r2 (readPacket sz k r (CloseRecv tp))) = Closing \<and>
            trace (readPacket sz k r2 (readPacket sz k r (CloseRecv tp))) =
              trace tp @ [SetReadDeadline (conn_of k) (deadline_of k), Read (conn_of k)])
       \<and> (pc tp = Delivering p \<longrightarrow>
            pc (readPacket sz k r (CloseRecv tp)) = LoopTop \<and>
            trace (readPacket sz k r (CloseRecv tp)) =
              trace tp @ (case callUpper tp of None \<Rightarrow> []
                          | Some upper \<Rightarrow> [callback k upper p]) \<and>
            pc (run sz k [Loop r, Loop r2, Loop r3] (CloseRecv tp)) = Closing \<and>
            trace (run sz k [Loop r, Loop r2, Loop r3] (CloseRecv tp)) =
              trace tp @ (case callUpper tp of None \<Rightarrow> []
                          | Some upper \<Rightarrow> [callback k upper p])
                @ [SetReadDeadline (conn_of k) (deadline_of k), Read (conn_of k)] \<and>
            (\<forall>as. filter is_delivery (trace (run sz k as (CloseRecv tp))) =
                     filter is_delivery (trace tp) \<or>
                   (\<exists>upper. filter is_delivery (trace (run sz k as (CloseRecv tp))) =
                     filter is_delivery (trace tp) @ [callback k upper p])))
       \<and> (\<forall>as. stop_flag k (run sz k as (CloseRecv tp)) \<and>
             (\<not> is_delivering (pc tp) \<longrightarrow>
                filter is_delivery (trace (run sz k as (CloseRecv tp))) =
                  filter is_delivery (trace tp)) \<and>
             length (filter is_read (trace (run sz k as (CloseRecv tp))))
               \<le> length (filter is_read (trace tp)) + (if pc tp = Reading then 0 else 1))"
proof -
  have s: "stop_flag k (CloseRecv tp)" by simp
  have ns: "pc (CloseRecv tp) \<noteq> Spawned" using assms by (cases "pc tp") simp_all
  have 1: "pc (readPacket sz k r (CloseRecv tp)) = Closing \<and>
           trace (readPacket sz k r (CloseRecv tp)) = trace tp" if "pc tp = Reading"
    using that s by (simp add: readPacket_Reading_stop)
  have 2: "pc (readPacket sz k r (CloseRecv tp)) = Reading \<and>
            trace (readPacket sz k r (CloseRecv tp)) =
              trace tp @ [SetReadDeadline (conn_of k) (deadline_of k), Read (conn_of k)] \<and>
            pc (readPacket sz k r2 (readPacket sz k r (CloseRecv tp))) = Closing \<and>
            trace (readPacket sz k r2 (readPacket sz k r (CloseRecv tp))) =
              trace tp @ [SetReadDeadline (conn_of k) (deadline_of k), Read (conn_of k)]"
    if "pc tp = LoopTop"
    using that s by (simp add: readPacket_LoopTop readPacket_Reading_stop)
  have 3: "pc (readPacket sz k r (CloseRecv tp)) = LoopTop \<and>
            trace (readPacket sz k r (CloseRecv tp)) =
              trace tp @ (case callUpper tp of None \<Rightarrow> []
                          | Some upper \<Rightarrow> [callback k upper p]) \<and>
            pc (run sz k [Loop r, Loop r2, Loop r3] (CloseRecv tp)) = Closing \<and>
            trace (run sz k [Loop r, Loop r2, Loop r3] (CloseRecv tp)) =
              trace tp @ (case callUpper tp of None \<Rightarrow> []
                          | Some upper \<Rightarrow> [callback k upper p])
                @ [SetReadDeadline (conn_of k) (deadline_of k), Read (conn_of k)]"
    if "pc tp = Delivering p"
    using that s
    by (simp add: readPacket_Delivering readPacket_LoopTop readPacket_Reading_stop)
  have 4: "filter is_delivery (trace (run sz k as (CloseRecv tp))) =
             filter is_delivery (trace tp) \<or>
           (\<exists>upper. filter is_delivery (trace (run sz k as (CloseRecv tp))) =
             filter is_delivery (trace tp) @ [callback k upper p])"
    if "pc tp = Delivering p" for as
    using stopped_delivers_packet_in_hand_run
      [OF s ns, of p "filter is_delivery (trace tp)" sz as] that
    by simp
  have 5: "stop_flag k (run sz k as (CloseRecv tp)) \<and>
           (\<not> is_delivering (pc tp) \<longrightarrow>
              filter is_delivery (trace (run sz k as (CloseRecv tp))) =
                filter is_delivery (trace tp)) \<and>
           length (filter is_read (trace (run sz k as (CloseRecv tp))))
             \<le> length (filter is_read (trace tp)) + (if pc tp = Reading then 0 else 1)" for as
    using stopped_run [OF s ns, of sz as] assms
    by (cases "pc tp") (simp_all split: if_splits)
  from 1 2 3 4 5 show ?thesis by blast
qed

theorem stop_flag_observed_after_the_read_witness:
  "in_loop (pc (run 4 McastData [Loop timed_out] listening)) \<and>
   pc (run 4 McastData [Loop timed_out] listening) = LoopTop \<and>
   pc (readPacket 4 McastData (got [1, 2, 3])
        (readPacket 4 McastData timed_out
          (CloseRecv (run 4 McastData [Loop timed_out] listening)))) = Closing \<and>
   trace (readPacket 4 McastData (got [1, 2, 3])
        (readPacket 4 McastData timed_out
          (CloseRecv (run 4 McastData [Loop timed_out] listening)))) =
     [SetReadDeadline DataConn 20, Read DataConn] \<and>
   in_loop (pc (run 4 McastData [Loop timed_out, Loop timed_out, Loop (got [1, 2, 3])]
                  listening)) \<and>
   pc (run 4 McastData [Loop timed_out, Loop timed_out, Loop (got [1, 2, 3])] listening) =
     Delivering \<lparr>buffer = [1, 2, 3, 0], inUse = 3,
       fromAddr = \<lparr>IpAddr = [10, 0, 0, 7], DataPort = 40000, CtrlPort = 0\<rparr>\<rparr> \<and>
   pc (run 4 McastData [Loop timed_out, Loop timed_out, Loop (got [4, 5])]
        (CloseRecv (run 4 McastData [Loop timed_out, Loop timed_out, Loop (got [1, 2, 3])]
                      listening))) = Closing \<and>
   trace (run 4 McastData [Loop timed_out, Loop timed_out, Loop (got [4, 5])]
        (CloseRecv (run 4 McastData [Loop timed_out, Loop timed_out, Loop (got [1, 2, 3])]
                      listening))) =
     [SetReadDeadline DataConn 20, Read DataConn,
      OnRecvData SelfTransport \<lparr>buffer = [1, 2, 3, 0], inUse = 3,
        fromAddr = \<lparr>IpAddr = [10, 0, 0, 7], DataPort = 40000, CtrlPort = 0\<rparr>\<rparr>,
      SetReadDeadline DataConn 20, Read DataConn]"
  using stop_flag_observed_after_the_read
    [of "run 4 McastData [Loop timed_out] listening" 4 McastData timed_out "got [1, 2, 3]"]
    stop_flag_observed_after_the_read
    [of "run 4 McastData [Loop timed_out, Loop timed_out, Loop (got [1, 2, 3])] listening"
        4 McastData timed_out timed_out
        "\<lparr>buffer = [1, 2, 3, 0], inUse = 3,
          fromAddr = \<lparr>IpAddr = [10, 0, 0, 7], DataPort = 40000, CtrlPort = 0\<rparr>\<rparr>"
        "got [4, 5]"]
  by (simp add: eval_defs eval_nat_numeral)

text \<open>
  C6, as the spec states it, fails: the multicast data loop has delivered a packet and is
  at the head of its next iteration when \<^verbatim>\<open>CloseRecv\<close> sets the flag; its next step
  does not break out but arms the deadline and makes a second read.
\<close>

theorem stop_flag_at_loop_top_counterexample:
  "pc (run 4 McastData
         [Loop timed_out, Loop timed_out, Loop (got [1, 2, 3]), Loop timed_out,
          OwnerCloseRecv] listening)
     = LoopTop \<and>
   stop_flag McastData (run 4 McastData
         [Loop timed_out, Loop timed_out, Loop (got [1, 2, 3]), Loop timed_out,
          OwnerCloseRecv] listening) \<and>
   filter is_read (trace (run 4 McastData
         [Loop timed_out, Loop timed_out, Loop (got [1, 2, 3]), Loop timed_out,
          OwnerCloseRecv] listening))
     = [Read DataConn] \<and>
   pc (run 4 McastData
         [Loop timed_out, Loop timed_out, Loop (got [1, 2, 3]), Loop timed_out,
          OwnerCloseRecv, Loop timed_out] listening)
     = Reading \<and>
   filter is_read (trace (run 4 McastData
         [Loop timed_out, Loop timed_out, Loop (got [1, 2, 3]), Loop timed_out,
          OwnerCloseRecv, Loop timed_out] listening))
     = [Read DataConn, Read DataConn]"
  by (simp add: eval_defs eval_nat_numeral)

section \<open>The reset of the stop flag on entry\<close>

lemma same_for_loop_readPacket:
  "same_for_loop k a b \<Longrightarrow> same_for_loop k (readPacket sz k r a) (readPacket sz k r b)"
  by (cases k) (auto simp: same_for_loop_def loop_defs Let_def split: pc.splits option.splits)

lemma same_for_loop_step:
  "same_for_loop k a b \<Longrightarrow> same_for_loop k (step sz k x a) (step sz k x b)"
proof (cases x)
  case (Loop r)
  assume "same_for_loop k a b"
  then show ?thesis using Loop by (simp add: same_for_loop_readPacket)
next
  case OwnerCloseRecv
  assume "same_for_loop k a b"
  then show ?thesis using OwnerCloseRecv
    by (cases k) (simp_all add: same_for_loop_def CloseRecv_def)
next
  case (OwnerSetEndChannel ch)
  assume "same_for_loop k a b"
  then show ?thesis using OwnerSetEndChannel
    by (cases k) (simp_all add: same_for_loop_def SetEndChannel_def)
next
  case (OwnerSetCallUpper u)
  assume "same_for_loop k a b"
  then show ?thesis using OwnerSetCallUpper
    by (cases k) (simp_all add: same_for_loop_def SetCallUpper_def)
qed

lemma same_for_loop_run:
  "same_for_loop k a b \<Longrightarrow> same_for_loop k (run sz k as a) (run sz k as b)"
  by (induction as arbitrary: a b) (simp_all add: same_for_loop_step)

lemma reset_forgets_CloseRecv:
  "pc tp = Spawned \<Longrightarrow>
   same_for_loop k (readPacket sz k r (CloseRecv tp)) (readPacket sz k r tp)"
  by (cases k) (simp_all add: same_for_loop_def loop_defs CloseRecv_def)

text \<open>
  C9. The first statement of every receive loop sets the loop's own stop flag to false,
  whatever its value was, and makes no call: the loop is then at the head of its first
  iteration, before its first read. So when \<^verbatim>\<open>CloseRecv\<close> has set the flags before
  the goroutine runs that statement, the request is overwritten: every schedule from
  there on leads to the same world (position, calls made, own stop flag, packet, buffer,
  end channel, upper layer) as it does when \<^verbatim>\<open>CloseRecv\<close> was never called; only the
  stop flag of the other loop, which this loop never reads, may differ.
\<close>

theorem reset_on_entry_overwrites_stop_request:
  assumes "pc tp = Spawned"
  shows "\<not> stop_flag k (readPacket sz k r tp) \<and>
         \<not> stop_flag k (readPacket sz k r (CloseRecv tp)) \<and>
         pc (readPacket sz k r tp) = LoopTop \<and>
         trace (readPacket sz k r tp) = trace tp \<and>
         (\<forall>as. same_for_loop k (run sz k as (readPacket sz k r (CloseRecv tp)))
                               (run sz k as (readPacket sz k r tp)))"
proof -
  have "pc (CloseRecv tp) = Spawned" using assms by simp
  from readPacket_Spawned [OF this, of sz k r] readPacket_Spawned [OF assms, of sz k r]
    same_for_loop_run [OF reset_forgets_CloseRecv [OF assms, of k sz r]]
  show ?thesis by simp
qed

theorem reset_on_entry_witness:
  "pc listening = Spawned \<and>
   stop_flag TCPData (CloseRecv listening) \<and>
   \<not> stop_flag TCPData (readPacket 4 TCPData timed_out (CloseRecv listening)) \<and>
   pc (run 4 TCPData [Loop timed_out, Loop (got [0, 1, 7]), Loop timed_out]
         (readPacket 4 TCPData timed_out (CloseRecv listening))) = LoopTop \<and>
   trace (run 4 TCPData [Loop timed_out, Loop (got [0, 1, 7]), Loop timed_out]
         (readPacket 4 TCPData timed_out (CloseRecv listening))) =
     trace (run 4 TCPData [Loop timed_out, Loop (got [0, 1, 7]), Loop timed_out]
         (readPacket 4 TCPData timed_out listening))"
  using reset_on_entry_overwrites_stop_request [of listening TCPData 4 timed_out]
  by (simp add: eval_defs same_for_loop_def eval_nat_numeral)

section \<open>The end channel\<close>

lemma no_chan_step:
  assumes "transportEnd tp = None" and "pc tp \<noteq> Terminated"
    and "\<forall>ch. a \<noteq> OwnerSetEndChannel (Some ch)"
  shows "transportEnd (step sz k a tp) = None \<and> pc (step sz k a tp) \<noteq> Terminated \<and>
         filter is_send (trace (step sz k a tp)) = filter is_send (trace tp)"
proof (cases a)
  case (Loop r)
  then show ?thesis using assms
    by (cases k) (auto simp: loop_defs Let_def split: pc.splits option.splits)
next
  case (OwnerSetEndChannel c)
  then show ?thesis using assms by (cases c) (simp_all add: SetEndChannel_def)
qed (use assms in \<open>simp_all add: SetCallUpper_def\<close>)

lemma no_chan_run:
  "transportEnd tp = None \<Longrightarrow> pc tp \<noteq> Terminated \<Longrightarrow>
   \<forall>ch. OwnerSetEndChannel (Some ch) \<notin> set as \<Longrightarrow>
   pc (run sz k as tp) \<noteq> Terminated \<and>
   filter is_send (trace (run sz k as tp)) = filter is_send (trace tp)"
proof (induction as arbitrary: tp)
  case Nil
  then show ?case by simp
next
  case (Cons a as)
  have "\<forall>ch. a \<noteq> OwnerSetEndChannel (Some ch)" using Cons.prems(3) by auto
  note st = no_chan_step [OF Cons.prems(1,2) this, of sz k]
  have "\<forall>ch. OwnerSetEndChannel (Some ch) \<notin> set as" using Cons.prems(3) by auto
  from Cons.IH [OF _ _ this, of "step sz k a tp"] st show ?case by simp
qed

lemma blocked_step: "pc tp = BlockedOnNilChan \<Longrightarrow> pc (step sz k a tp) = BlockedOnNilChan"
  by (cases a) (simp_all add: readPacket_inert owner_defs)

lemma blocked_run: "pc tp = BlockedOnNilChan \<Longrightarrow> pc (run sz k as tp) = BlockedOnNilChan"
  by (induction as arbitrary: tp) (simp_all add: blocked_step)

text \<open>
  C10. The send at the end of a loop completes exactly when the end channel is not nil
  at the moment the goroutine comes to the send. Take a loop that has not terminated and
  a transport whose end channel is nil. As long as the schedule installs no usable
  channel, the loop never terminates and sends nothing. When the loop has broken out, its
  next two steps close its socket and then block in the send on the nil channel: the
  close is made, no send is, and whatever happens later (an end channel installed
  afterwards included) the goroutine stays blocked and never terminates.
\<close>

theorem nil_end_channel_never_terminates:
  "(pc tp = Sending \<longrightarrow>
      (pc (readPacket sz k r1 tp) = Terminated) = (transportEnd tp \<noteq> None))
   \<and> (transportEnd tp = None \<and> pc tp \<noteq> Terminated \<and>
        (\<forall>ch. OwnerSetEndChannel (Some ch) \<notin> set as) \<longrightarrow>
          pc (run sz k as tp) \<noteq> Terminated \<and>
          filter is_send (trace (run sz k as tp)) = filter is_send (trace tp))
   \<and> (transportEnd tp = None \<and> pc tp = Closing \<longrightarrow>
          run sz k [Loop r1, Loop r2] tp =
            tp\<lparr>trace := trace tp @ [Close (conn_of k)], pc := BlockedOnNilChan\<rparr> \<and>
          (\<forall>bs. pc (run sz k (Loop r1 # Loop r2 # bs) tp) = BlockedOnNilChan))"
proof (intro conjI impI)
  assume "pc tp = Sending"
  then show "(pc (readPacket sz k r1 tp) = Terminated) = (transportEnd tp \<noteq> None)"
    by (cases "transportEnd tp")
       (simp_all add: readPacket_Sending_nil readPacket_Sending_chan)
next
  assume a: "transportEnd tp = None \<and> pc tp \<noteq> Terminated \<and>
    (\<forall>ch. OwnerSetEndChannel (Some ch) \<notin> set as)"
  then have "transportEnd tp = None" "pc tp \<noteq> Terminated"
    "\<forall>ch. OwnerSetEndChannel (Some ch) \<notin> set as" by simp_all
  from no_chan_run [OF this, of sz k]
  show "pc (run sz k as tp) \<noteq> Terminated"
    "filter is_send (trace (run sz k as tp)) = filter is_send (trace tp)" by simp_all
next
  assume c: "transportEnd tp = None \<and> pc tp = Closing"
  then show eq: "run sz k [Loop r1, Loop r2] tp =
      tp\<lparr>trace := trace tp @ [Close (conn_of k)], pc := BlockedOnNilChan\<rparr>"
    by (simp add: readPacket_Closing readPacket_Sending_nil)
  show "\<forall>bs. pc (run sz k (Loop r1 # Loop r2 # bs) tp) = BlockedOnNilChan"
  proof
    fix bs
    have "run sz k (Loop r1 # Loop r2 # bs) tp = run sz k bs (run sz k [Loop r1, Loop r2] tp)"
      by simp
    then show "pc (run sz k (Loop r1 # Loop r2 # bs) tp) = BlockedOnNilChan"
      using blocked_run [of "run sz k [Loop r1, Loop r2] tp" sz k bs] eq by simp
  qed
qed

theorem nil_end_channel_witness:
  "transportEnd (run 4 McastData [Loop timed_out, Loop timed_out, Loop conn_reset]
                    listening_no_chan) = None \<and>
   pc (run 4 McastData [Loop timed_out, Loop timed_out, Loop conn_reset]
         listening_no_chan) = Closing \<and>
   (\<forall>ch. OwnerSetEndChannel (Some ch) \<notin> set [Loop timed_out, OwnerCloseRecv, Loop timed_out]) \<and>
   pc (run 4 McastData [Loop timed_out, OwnerCloseRecv, Loop timed_out]
        (run 4 McastData [Loop timed_out, Loop timed_out, Loop conn_reset]
           listening_no_chan)) \<noteq> Terminated \<and>
   trace (run 4 McastData [Loop timed_out, Loop timed_out]
        (run 4 McastData [Loop timed_out, Loop timed_out, Loop conn_reset]
           listening_no_chan)) = [SetReadDeadline DataConn 20, Read DataConn, Close DataConn] \<and>
   pc (run 4 McastData [Loop timed_out, Loop timed_out, OwnerSetEndChannel (Some 1), Loop timed_out]
        (run 4 McastData [Loop timed_out, Loop timed_out, Loop conn_reset]
           listening_no_chan)) = BlockedOnNilChan \<and>
   pc (run 4 McastData [Loop timed_out, Loop timed_out, Loop conn_reset, Loop timed_out]
         listening) = Sending \<and>
   pc (readPacket 4 McastData timed_out
        (run 4 McastData [Loop timed_out, Loop timed_out, Loop conn_reset, Loop timed_out]
           listening)) = Terminated"
  using nil_end_channel_never_terminates
    [of "run 4 McastData [Loop timed_out, Loop timed_out, Loop conn_reset] listening_no_chan"
        4 McastData timed_out "[Loop timed_out, OwnerCloseRecv, Loop timed_out]" timed_out]
    nil_end_channel_never_terminates
    [of "run 4 McastData [Loop timed_out, Loop timed_out, Loop conn_reset, Loop timed_out]
           listening" 4 McastData timed_out]
  by (simp add: eval_defs)

section \<open>The sender's address of a delivered packet\<close>

lemma remoteAddrRtp_step: "remoteAddrRtp (step sz k a tp) = remoteAddrRtp tp"
proof (cases a)
  case (Loop r)
  then show ?thesis
    by (cases k) (auto simp: loop_defs Let_def split: pc.splits option.splits)
qed (simp_all add: owner_defs)

text \<open>A packet is built by the step that ends a read, from that read: the read has
  returned no error, and the packet carries the address of that read's sender.\<close>

lemma built_from_read:
  assumes "pc tp = Reading" and "pc (readPacket sz k r tp) = Delivering p"
  shows "rr_err r = None \<and> (\<exists>a. sender_of k tp r = Some a \<and> stamped k a p)"
proof (cases k)
  case TCPData
  then show ?thesis using assms
    by (auto simp: TransportTCP_readDataPacket_def Let_def newDataPacket_def
        split: option.splits if_splits)
next
  case McastData
  then show ?thesis using assms
    by (auto simp: TransportMulticast_readDataPacket_def Let_def newDataPacket_def
        split: option.splits if_splits)
next
  case McastCtrl
  then show ?thesis using assms
    by (auto simp: TransportMulticast_readCtrlPacket_def Let_def newCtrlPacket_def
        split: option.splits if_splits)
qed

lemma read_builds_packet:
  assumes "pc tp = Reading" and "\<not> stop_flag k tp" and "rr_err r = None"
    and "sender_of k tp r = Some a"
    and "k = TCPData \<longrightarrow> 2 \<le> copied (buf tp) (rr_data r)"
  shows "\<exists>p. pc (readPacket sz k r tp) = Delivering p \<and> stamped k a p"
proof (cases k)
  case TCPData
  then show ?thesis using assms
    by (auto simp: TransportTCP_readDataPacket_def Let_def newDataPacket_def go_slice_def
        go_copy_def copied_def split: option.splits if_splits)
next
  case McastData
  then show ?thesis using assms
    by (auto simp: TransportMulticast_readDataPacket_def Let_def newDataPacket_def
        go_slice_def go_copy_def copied_def split: option.splits if_splits)
next
  case McastCtrl
  then show ?thesis using assms
    by (auto simp: TransportMulticast_readCtrlPacket_def Let_def newCtrlPacket_def
        go_slice_def go_copy_def copied_def split: option.splits if_splits)
qed

lemma Delivering_only_from_Reading:
  assumes "pc (readPacket sz k r tp) = Delivering p"
  shows "pc tp = Reading"
proof (cases "pc tp")
  case Spawned
  then show ?thesis using assms readPacket_Spawned [of tp sz k r] by simp
next
  case LoopTop
  then show ?thesis using assms by (simp add: readPacket_LoopTop)
next
  case (Delivering q)
  then show ?thesis using assms by (simp add: readPacket_Delivering)
next
  case Closing
  then show ?thesis using assms by (simp add: readPacket_Closing)
next
  case Sending
  then show ?thesis using assms
    by (cases "transportEnd tp") (simp_all add: readPacket_Sending_nil readPacket_Sending_chan)
qed (use assms in \<open>simp_all add: readPacket_inert\<close>)

text \<open>A step adds a delivery only as the callback of the packet in hand.\<close>

lemma new_delivery:
  assumes "e \<in> set (trace (step sz k x tp))" and "is_delivery e"
  shows "e \<in> set (trace tp) \<or>
         (\<exists>p upper. pc tp = Delivering p \<and> e = callback k upper p)"
proof (cases x)
  case (Loop r)
  show ?thesis
  proof (cases "pc tp")
    case Spawned
    then show ?thesis using Loop assms readPacket_Spawned [of tp sz k r] by simp
  next
    case LoopTop
    then show ?thesis using Loop assms by (auto simp: readPacket_LoopTop)
  next
    case Reading
    then show ?thesis using Loop assms readPacket_Reading_frame [of tp sz k r] by simp
  next
    case (Delivering q)
    then show ?thesis using Loop assms
      by (cases "callUpper tp") (auto simp: readPacket_Delivering)
  next
    case Closing
    then show ?thesis using Loop assms by (auto simp: readPacket_Closing)
  next
    case Sending
    then show ?thesis using Loop assms
      by (cases "transportEnd tp")
         (auto simp: readPacket_Sending_nil readPacket_Sending_chan)
  qed (use Loop assms in \<open>simp_all add: readPacket_inert\<close>)
qed (use assms in \<open>simp_all add: owner_defs\<close>)

lemma run_snoc: "run sz k (as @ [x]) tp = step sz k x (run sz k as tp)"
  by (simp add: run_append)

text \<open>The packet in hand was built by a read step of the schedule, from that read.\<close>

lemma packet_in_hand_built_by_a_read:
  assumes "\<not> is_delivering (pc tp)"
  shows "pc (run sz k as tp) = Delivering p \<Longrightarrow>
         \<exists>as1 r as2 a. as = as1 @ Loop r # as2 \<and> pc (run sz k as1 tp) = Reading \<and>
            rr_err r = None \<and> sender_of k (run sz k as1 tp) r = Some a \<and>
            pc (run sz k (as1 @ [Loop r]) tp) = Delivering p \<and> stamped k a p"
proof (induction as rule: rev_induct)
  case Nil
  then show ?case using assms by simp
next
  case (snoc x as)
  let ?w = "run sz k as tp"
  have st: "pc (step sz k x ?w) = Delivering p" using snoc.prems by (simp add: run_snoc)
  show ?case
  proof (cases x)
    case (Loop r)
    with st have d: "pc (readPacket sz k r ?w) = Delivering p" by simp
    then have rd: "pc ?w = Reading" by (rule Delivering_only_from_Reading)
    from built_from_read [OF rd d] obtain a where
      "rr_err r = None" "sender_of k ?w r = Some a" "stamped k a p" by blast
    then have "as @ [x] = as @ Loop r # [] \<and> pc (run sz k as tp) = Reading \<and>
            rr_err r = None \<and> sender_of k (run sz k as tp) r = Some a \<and>
            pc (run sz k (as @ [Loop r]) tp) = Delivering p \<and> stamped k a p"
      using Loop rd d by (simp add: run_snoc)
    then show ?thesis by blast
  next
    case OwnerCloseRecv
    with st have "pc ?w = Delivering p" by simp
    from snoc.IH [OF this] obtain as1 r as2 a where
      "as = as1 @ Loop r # as2" "pc (run sz k as1 tp) = Reading" "rr_err r = None"
      "sender_of k (run sz k as1 tp) r = Some a"
      "pc (run sz k (as1 @ [Loop r]) tp) = Delivering p" "stamped k a p" by blast
    then have "as @ [x] = as1 @ Loop r # (as2 @ [x]) \<and> pc (run sz k as1 tp) = Reading \<and>
      rr_err r = None \<and> sender_of k (run sz k as1 tp) r = Some a \<and>
      pc (run sz k (as1 @ [Loop r]) tp) = Delivering p \<and> stamped k a p" by simp
    then show ?thesis by blast
  next
    case (OwnerSetEndChannel ch)
    with st have "pc ?w = Delivering p" by (simp add: SetEndChannel_def)
    from snoc.IH [OF this] obtain as1 r as2 a where
      "as = as1 @ Loop r # as2" "pc (run sz k as1 tp) = Reading" "rr_err r = None"
      "sender_of k (run sz k as1 tp) r = Some a"
      "pc (run sz k (as1 @ [Loop r]) tp) = Delivering p" "stamped k a p" by blast
    then have "as @ [x] = as1 @ Loop r # (as2 @ [x]) \<and> pc (run sz k as1 tp) = Reading \<and>
      rr_err r = None \<and> sender_of k (run sz k as1 tp) r = Some a \<and>
      pc (run sz k (as1 @ [Loop r]) tp) = Delivering p \<and> stamped k a p" by simp
    then show ?thesis by blast
  next
    case (OwnerSetCallUpper u)
    with st have "pc ?w = Delivering p" by (simp add: SetCallUpper_def)
    from snoc.IH [OF this] obtain as1 r as2 a where
      "as = as1 @ Loop r # as2" "pc (run sz k as1 tp) = Reading" "rr_err r = None"
      "sender_of k (run sz k as1 tp) r = Some a"
      "pc (run sz k (as1 @ [Loop r]) tp) = Delivering p" "stamped k a p" by blast
    then have "as @ [x] = as1 @ Loop r # (as2 @ [x]) \<and> pc (run sz k as1 tp) = Reading \<and>
      rr_err r = None \<and> sender_of k (run sz k as1 tp) r = Some a \<and>
      pc (run sz k (as1 @ [Loop r]) tp) = Delivering p \<and> stamped k a p" by simp
    then show ?thesis by blast
  qed
qed

text \<open>Every delivery of a run is the callback of a packet that a read step of the run
  built from its own read.\<close>

lemma delivery_built_by_a_read:
  assumes "\<not> is_delivering (pc tp)" and "filter is_delivery (trace tp) = []"
  shows "e \<in> set (trace (run sz k as tp)) \<Longrightarrow> is_delivery e \<Longrightarrow>
         \<exists>as1 r as2 a p upper. as = as1 @ Loop r # as2 \<and> pc (run sz k as1 tp) = Reading \<and>
            rr_err r = None \<and> sender_of k (run sz k as1 tp) r = Some a \<and>
            pc (run sz k (as1 @ [Loop r]) tp) = Delivering p \<and> stamped k a p \<and>
            e = callback k upper p"
proof (induction as rule: rev_induct)
  case Nil
  then show ?case using assms(2) by (auto simp: filter_empty_conv)
next
  case (snoc x as)
  let ?w = "run sz k as tp"
  from snoc.prems(1) have "e \<in> set (trace (step sz k x ?w))" by (simp add: run_snoc)
  from new_delivery [OF this snoc.prems(2)]
  consider (old) "e \<in> set (trace ?w)"
    | (new) p upper where "pc ?w = Delivering p" "e = callback k upper p" by blast
  then show ?case
  proof cases
    case old
    from snoc.IH [OF old snoc.prems(2)] obtain as1 r as2 a p upper where
      "as = as1 @ Loop r # as2" "pc (run sz k as1 tp) = Reading" "rr_err r = None"
      "sender_of k (run sz k as1 tp) r = Some a"
      "pc (run sz k (as1 @ [Loop r]) tp) = Delivering p" "stamped k a p"
      "e = callback k upper p" by blast
    then have "as @ [x] = as1 @ Loop r # (as2 @ [x]) \<and> pc (run sz k as1 tp) = Reading \<and>
      rr_err r = None \<and> sender_of k (run sz k as1 tp) r = Some a \<and>
      pc (run sz k (as1 @ [Loop r]) tp) = Delivering p \<and> stamped k a p \<and>
      e = callback k upper p" by simp
    then show ?thesis by blast
  next
    case new
    from packet_in_hand_built_by_a_read [OF assms(1) new(1)] obtain as1 r as2 a where
      "as = as1 @ Loop r # as2" "pc (run sz k as1 tp) = Reading" "rr_err r = None"
      "sender_of k (run sz k as1 tp) r = Some a"
      "pc (run sz k (as1 @ [Loop r]) tp) = Delivering p" "stamped k a p" by blast
    then have "as @ [x] = as1 @ Loop r # (as2 @ [x]) \<and> pc (run sz k as1 tp) = Reading \<and>
      rr_err r = None \<and> sender_of k (run sz k as1 tp) r = Some a \<and>
      pc (run sz k (as1 @ [Loop r]) tp) = Delivering p \<and> stamped k a p \<and>
      e = callback k upper p" using new(2) by simp
    then show ?thesis by blast
  qed
qed

lemma stamped_fields:
  "stamped k a p \<Longrightarrow>
   IpAddr (fromAddr p) = IP a \<and>
   (k = McastCtrl \<longrightarrow> CtrlPort (fromAddr p) = Port a \<and> DataPort (fromAddr p) = 0) \<and>
   (k \<noteq> McastCtrl \<longrightarrow> DataPort (fromAddr p) = Port a \<and> CtrlPort (fromAddr p) = 0) \<and>
   (Port a \<noteq> 0 \<longrightarrow> (DataPort (fromAddr p) \<noteq> 0) \<noteq> (CtrlPort (fromAddr p) \<noteq> 0))"
  by (cases k) auto

text \<open>
  C8, as the code has it. A packet is built by the step that ends a read, from that
  read, and is handed to the upper layer by the loop's next step. (1) When a read returns
  without error, with the stop flag unset (for TCP: with at least the two header bytes),
  the loop holds a packet whose \<^verbatim>\<open>fromAddr\<close> has the IP address of the sender of
  that read; in a data loop \<^verbatim>\<open>DataPort\<close> is the sender's port and \<^verbatim>\<open>CtrlPort\<close>
  is zero, in the control loop \<^verbatim>\<open>CtrlPort\<close> is the sender's port and
  \<^verbatim>\<open>DataPort\<close> is zero. (2) The next step of the loop hands exactly that packet to
  the upper layer, by \<^verbatim>\<open>OnRecvData\<close> in a data loop and by \<^verbatim>\<open>OnRecvCtrl\<close> in the
  control loop. (3) In a run that starts with nothing delivered and no packet in hand,
  every delivery is the callback, of the loop's kind, of a packet that a read step of the
  run built from its own read and its own sender in this way; exactly one port of the
  packet is non-zero whenever the sender's port is not zero.
\<close>

theorem delivered_fromAddr_is_own_sender:
  "(pc tp = Reading \<and> \<not> stop_flag k tp \<and> rr_err r = None \<and> sender_of k tp r = Some a \<and>
    (k = TCPData \<longrightarrow> 2 \<le> copied (buf tp) (rr_data r)) \<longrightarrow>
      (\<exists>p. pc (readPacket sz k r tp) = Delivering p \<and>
           trace (readPacket sz k r tp) = trace tp \<and>
           IpAddr (fromAddr p) = IP a \<and>
           (k = McastCtrl \<longrightarrow> CtrlPort (fromAddr p) = Port a \<and> DataPort (fromAddr p) = 0) \<and>
           (k \<noteq> McastCtrl \<longrightarrow> DataPort (fromAddr p) = Port a \<and> CtrlPort (fromAddr p) = 0)))
   \<and> (pc tp = Delivering q \<and> callUpper tp = Some upper \<longrightarrow>
         pc (readPacket sz k r tp) = LoopTop \<and>
         trace (readPacket sz k r tp) = trace tp @ [callback k upper q])
   \<and> (filter is_delivery (trace tp) = [] \<and> \<not> is_delivering (pc tp) \<and>
       e \<in> set (trace (run sz k as tp)) \<and> is_delivery e \<longrightarrow>
         (\<exists>as1 r1 as2 a1 p1 upper1.
            as = as1 @ Loop r1 # as2 \<and> pc (run sz k as1 tp) = Reading \<and> rr_err r1 = None \<and>
            sender_of k (run sz k as1 tp) r1 = Some a1 \<and>
            pc (run sz k (as1 @ [Loop r1]) tp) = Delivering p1 \<and>
            e = callback k upper1 p1 \<and>
            IpAddr (fromAddr p1) = IP a1 \<and>
            (k = McastCtrl \<longrightarrow>
               CtrlPort (fromAddr p1) = Port a1 \<and> DataPort (fromAddr p1) = 0) \<and>
            (k \<noteq> McastCtrl \<longrightarrow>
               DataPort (fromAddr p1) = Port a1 \<and> CtrlPort (fromAddr p1) = 0) \<and>
            (Port a1 \<noteq> 0 \<longrightarrow>
               (DataPort (fromAddr p1) \<noteq> 0) \<noteq> (CtrlPort (fromAddr p1) \<noteq> 0))))"
proof (intro conjI impI)
  assume h: "pc tp = Reading \<and> \<not> stop_flag k tp \<and> rr_err r = None \<and>
    sender_of k tp r = Some a \<and> (k = TCPData \<longrightarrow> 2 \<le> copied (buf tp) (rr_data r))"
  then obtain p where p: "pc (readPacket sz k r tp) = Delivering p" "stamped k a p"
    using read_builds_packet [of tp k r a sz] by blast
  have "trace (readPacket sz k r tp) = trace tp"
    using h readPacket_Reading_frame [of tp sz k r] by simp
  with p stamped_fields [OF p(2)]
  show "\<exists>p. pc (readPacket sz k r tp) = Delivering p \<and>
           trace (readPacket sz k r tp) = trace tp \<and>
           IpAddr (fromAddr p) = IP a \<and>
           (k = McastCtrl \<longrightarrow> CtrlPort (fromAddr p) = Port a \<and> DataPort (fromAddr p) = 0) \<and>
           (k \<noteq> McastCtrl \<longrightarrow> DataPort (fromAddr p) = Port a \<and> CtrlPort (fromAddr p) = 0)"
    by blast
next
  assume "pc tp = Delivering q \<and> callUpper tp = Some upper"
  then show "pc (readPacket sz k r tp) = LoopTop"
    "trace (readPacket sz k r tp) = trace tp @ [callback k upper q]"
    by (simp_all add: readPacket_Delivering)
next
  assume h: "filter is_delivery (trace tp) = [] \<and> \<not> is_delivering (pc tp) \<and>
       e \<in> set (trace (run sz k as tp)) \<and> is_delivery e"
  then obtain as1 r1 as2 a1 p1 upper1 where d:
    "as = as1 @ Loop r1 # as2" "pc (run sz k as1 tp) = Reading" "rr_err r1 = None"
    "sender_of k (run sz k as1 tp) r1 = Some a1"
    "pc (run sz k (as1 @ [Loop r1]) tp) = Delivering p1" "stamped k a1 p1"
    "e = callback k upper1 p1"
    using delivery_built_by_a_read [of tp e sz k as] by blast
  from d(1-5,7) stamped_fields [OF d(6)]
  show "\<exists>as1 r1 as2 a1 p1 upper1.
            as = as1 @ Loop r1 # as2 \<and> pc (run sz k as1 tp) = Reading \<and> rr_err r1 = None \<and>
            sender_of k (run sz k as1 tp) r1 = Some a1 \<and>
            pc (run sz k (as1 @ [Loop r1]) tp) = Delivering p1 \<and>
            e = callback k upper1 p1 \<and>
            IpAddr (fromAddr p1) = IP a1 \<and>
            (k = McastCtrl \<longrightarrow>
               CtrlPort (fromAddr p1) = Port a1 \<and> DataPort (fromAddr p1) = 0) \<and>
            (k \<noteq> McastCtrl \<longrightarrow>
               DataPort (fromAddr p1) = Port a1 \<and> CtrlPort (fromAddr p1) = 0) \<and>
            (Port a1 \<noteq> 0 \<longrightarrow>
               (DataPort (fromAddr p1) \<noteq> 0) \<noteq> (CtrlPort (fromAddr p1) \<noteq> 0))"
    by blast
qed

theorem delivered_fromAddr_witness:
  "pc (run 4 TCPData [Loop timed_out, Loop timed_out] listening) = Reading \<and>
   \<not> stop_flag TCPData (run 4 TCPData [Loop timed_out, Loop timed_out] listening) \<and>
   rr_err (got [0, 2, 5, 6]) = None \<and>
   sender_of TCPData (run 4 TCPData [Loop timed_out, Loop timed_out] listening)
     (got [0, 2, 5, 6]) = Some peer \<and>
   2 \<le> copied (buf (run 4 TCPData [Loop timed_out, Loop timed_out] listening))
          (rr_data (got [0, 2, 5, 6])) \<and>
   pc (run 4 TCPData [Loop timed_out, Loop timed_out, Loop (got [0, 2, 5, 6])] listening) =
     Delivering \<lparr>buffer = [5, 6, 0, 0], inUse = 2,
       fromAddr = \<lparr>IpAddr = [10, 0, 0, 7], DataPort = 40000, CtrlPort = 0\<rparr>\<rparr> \<and>
   callUpper (run 4 TCPData [Loop timed_out, Loop timed_out, Loop (got [0, 2, 5, 6])]
     listening) = Some SelfTransport \<and>
   trace (run 4 TCPData [Loop timed_out, Loop timed_out, Loop (got [0, 2, 5, 6]),
            Loop timed_out] listening) =
     [SetReadDeadline DataConn 20, Read DataConn,
      OnRecvData SelfTransport \<lparr>buffer = [5, 6, 0, 0], inUse = 2,
        fromAddr = \<lparr>IpAddr = [10, 0, 0, 7], DataPort = 40000, CtrlPort = 0\<rparr>\<rparr>] \<and>
   filter is_delivery (trace listening) = [] \<and> \<not> is_delivering (pc listening) \<and>
   filter is_delivery (trace (run 4 McastCtrl
       [Loop timed_out, Loop timed_out, Loop (got_from peer [1]), Loop timed_out,
        Loop timed_out, Loop (got_from peer2 [2]), Loop timed_out] listening)) =
     [OnRecvCtrl SelfTransport \<lparr>buffer = [1, 0, 0, 0], inUse = 1,
        fromAddr = \<lparr>IpAddr = [10, 0, 0, 7], DataPort = 0, CtrlPort = 40000\<rparr>\<rparr>,
      OnRecvCtrl SelfTransport \<lparr>buffer = [2, 0, 0, 0], inUse = 1,
        fromAddr = \<lparr>IpAddr = [10, 0, 0, 9], DataPort = 0, CtrlPort = 40002\<rparr>\<rparr>]"
  using delivered_fromAddr_is_own_sender
    [where tp = "run 4 TCPData [Loop timed_out, Loop timed_out] listening" and k = TCPData
       and r = "got [0, 2, 5, 6]" and a = peer and sz = 4]
    delivered_fromAddr_is_own_sender
    [where tp = "run 4 TCPData [Loop timed_out, Loop timed_out, Loop (got [0, 2, 5, 6])]
                   listening" and k = TCPData and r = timed_out and sz = 4
       and upper = SelfTransport
       and q = "\<lparr>buffer = [5, 6, 0, 0], inUse = 2,
          fromAddr = \<lparr>IpAddr = [10, 0, 0, 7], DataPort = 40000, CtrlPort = 0\<rparr>\<rparr>"]
    delivered_fromAddr_is_own_sender
    [where tp = listening and k = McastCtrl and sz = 4
       and as = "[Loop timed_out, Loop timed_out, Loop (got_from peer [1]), Loop timed_out,
        Loop timed_out, Loop (got_from peer2 [2]), Loop timed_out]"
       and e = "OnRecvCtrl SelfTransport \<lparr>buffer = [2, 0, 0, 0], inUse = 1,
        fromAddr = \<lparr>IpAddr = [10, 0, 0, 9], DataPort = 0, CtrlPort = 40002\<rparr>\<rparr>"]
  by (simp add: eval_defs eval_nat_numeral)

text \<open>
  C8, as the spec states it, fails: a datagram whose source port is zero is delivered by
  the multicast data loop with \<^verbatim>\<open>DataPort\<close> zero and \<^verbatim>\<open>CtrlPort\<close> zero, so
  \<^verbatim>\<open>fromAddr\<close> has no non-zero port.
\<close>

theorem sender_port_zero_counterexample:
  "Port peer_port0 = 0 \<and>
   trace (run 4 McastData
     [Loop timed_out, Loop timed_out, Loop (got_from peer_port0 [1, 2, 3]), Loop timed_out]
     listening) =
     [SetReadDeadline DataConn 20, Read DataConn,
      OnRecvData SelfTransport \<lparr>buffer = [1, 2, 3, 0], inUse = 3,
        fromAddr = \<lparr>IpAddr = [10, 0, 0, 7], DataPort = 0, CtrlPort = 0\<rparr>\<rparr>]"
  by (simp add: eval_defs eval_nat_numeral)

section \<open>TCP framing\<close>

lemma length_go_copy [simp]: "length (go_copy dst src) = length dst"
  by (simp add: go_copy_def)

lemma buf_length_step:
  "pc tp = Spawned \<or> length (buf tp) = sz \<Longrightarrow>
   pc (step sz k a tp) = Spawned \<or> length (buf (step sz k a tp)) = sz"
proof (cases a)
  case (Loop r)
  assume "pc tp = Spawned \<or> length (buf tp) = sz"
  then show ?thesis using Loop
    by (cases k) (auto simp: loop_defs Let_def split: pc.splits option.splits)
qed (auto simp: owner_defs)

lemma buf_length_run:
  "pc tp = Spawned \<or> length (buf tp) = sz \<Longrightarrow>
   pc (run sz k as tp) = Spawned \<or> length (buf (run sz k as tp)) = sz"
  by (induction as arbitrary: tp) (simp_all add: buf_length_step del: step.simps)

lemma slice_of_read:
  assumes "length b = sz" and "2 \<le> length (take sz d)"
  shows "go_slice (go_copy b d) 2 (int (length (take sz d))) = Some (drop 2 (take sz d))"
proof (cases "length d \<le> sz")
  case True
  then have "go_copy b d = d @ drop (length d) b" "take sz d = d"
    using assms(1) by (simp_all add: go_copy_def)
  then show ?thesis using assms True by (simp add: go_slice_def)
next
  case False
  then have "go_copy b d = take sz d" "length (take sz d) = sz"
    using assms(1) by (simp_all add: go_copy_def)
  then show ?thesis using assms(2) by (simp add: go_slice_def)
qed

lemma copy_into_fresh:
  "length src \<le> sz \<Longrightarrow> take (length src) (go_copy (replicate sz (0::byte)) src) = src"
  by (simp add: go_copy_def)

text \<open>
  C2. In the TCP data loop, take a read that returns without error, with the stop flag
  unset, into the loop's buffer of \<open>sz\<close> bytes; the \<open>n\<close> bytes it returns are the first
  \<open>sz\<close> of the bytes that arrived, and \<open>n \<ge> 2\<close>: a 2-byte header and a payload. With a
  peer address and an upper layer set, the loop builds one packet and its next step hands
  exactly that packet to the upper layer; the packet's \<^verbatim>\<open>inUse\<close> is \<open>n - 2\<close> and the
  first \<^verbatim>\<open>inUse\<close> bytes of its buffer are the bytes 2 to \<open>n - 1\<close> of the read.
\<close>

theorem tcp_delivers_payload_without_header:
  assumes "pc tp = Reading" and "\<not> dataRecvStop tp" and "rr_err r = None"
    and "length (buf tp) = sz"
    and "remoteAddrRtp tp = Some ra" and "callUpper tp = Some upper"
    and "2 \<le> length (take sz (rr_data r))"
  shows "\<exists>p. pc (TransportTCP_readDataPacket sz r tp) = Delivering p \<and>
             trace (TransportTCP_readDataPacket sz r2 (TransportTCP_readDataPacket sz r tp))
               = trace tp @ [OnRecvData upper p] \<and>
             inUse p = int (length (take sz (rr_data r))) - 2 \<and>
             take (nat (inUse p)) (buffer p) = drop 2 (take sz (rr_data r))"
proof -
  define d where "d = take sz (rr_data r)"
  define p where "p = \<lparr>buffer = go_copy (replicate sz 0) (drop 2 d), inUse = int (length d) - 2,
    fromAddr = \<lparr>IpAddr = IP ra, DataPort = Port ra, CtrlPort = 0\<rparr>\<rparr>"
  have n: "copied (buf tp) (rr_data r) = length d"
    using assms(4) by (simp add: copied_def d_def min_def)
  have sl: "go_slice (go_copy (buf tp) (rr_data r)) 2 (int (length d)) = Some (drop 2 d)"
    unfolding d_def using slice_of_read [OF assms(4) assms(7)] .
  have eq: "TransportTCP_readDataPacket sz r tp =
          tp\<lparr>buf := go_copy (buf tp) (rr_data r), rpkt := Some p, pc := Delivering p\<rparr>"
    using assms(1,2,3,5)
    by (simp add: TransportTCP_readDataPacket_def Let_def n sl newDataPacket_def p_def)
  then have pc: "pc (TransportTCP_readDataPacket sz r tp) = Delivering p" by simp
  have t: "trace (TransportTCP_readDataPacket sz r2 (TransportTCP_readDataPacket sz r tp))
             = trace tp @ [OnRecvData upper p]"
    using readPacket_Delivering [of "TransportTCP_readDataPacket sz r tp" p sz TCPData r2]
      pc assms(6)
    by (simp add: eq)
  have "length (drop 2 d) \<le> sz" by (simp add: d_def)
  from copy_into_fresh [OF this]
  have "take (nat (inUse p)) (buffer p) = drop 2 d"
    using assms(7) by (simp add: p_def d_def nat_diff_distrib')
  with pc t show ?thesis unfolding d_def [symmetric] by (intro exI [of _ p]) (simp add: p_def)
qed

theorem tcp_delivers_payload_witness:
  "pc (run 4 TCPData [Loop timed_out, Loop timed_out] listening) = Reading \<and>
   \<not> dataRecvStop (run 4 TCPData [Loop timed_out, Loop timed_out] listening) \<and>
   rr_err (got [0, 2, 5, 6]) = None \<and>
   length (buf (run 4 TCPData [Loop timed_out, Loop timed_out] listening)) = 4 \<and>
   remoteAddrRtp (run 4 TCPData [Loop timed_out, Loop timed_out] listening) = Some peer \<and>
   callUpper (run 4 TCPData [Loop timed_out, Loop timed_out] listening) = Some SelfTransport \<and>
   2 \<le> length (take 4 (rr_data (got [0, 2, 5, 6]))) \<and>
   trace (TransportTCP_readDataPacket 4 timed_out
           (TransportTCP_readDataPacket 4 (got [0, 2, 5, 6])
             (run 4 TCPData [Loop timed_out, Loop timed_out] listening))) =
     [SetReadDeadline DataConn 20, Read DataConn,
      OnRecvData SelfTransport
        \<lparr>buffer = [5, 6, 0, 0], inUse = 2,
         fromAddr = \<lparr>IpAddr = [10, 0, 0, 7], DataPort = 40000, CtrlPort = 0\<rparr>\<rparr>]"
  using tcp_delivers_payload_without_header
    [of "run 4 TCPData [Loop timed_out, Loop timed_out] listening" "got [0, 2, 5, 6]" 4
        peer SelfTransport timed_out]
  by (simp add: eval_defs eval_nat_numeral)

section \<open>The end of a loop\<close>

text \<open>
  A loop that leaves its \<^verbatim>\<open>for\<close> statement by a \<^verbatim>\<open>break\<close> closes its own socket
  and then, given a usable end channel, sends its own termination value: when the
  goroutine has returned, these are its last two calls, and it has made no other close
  or send.
\<close>

lemma quiet_append [simp]: "quiet (xs @ ys) = (quiet xs \<and> quiet ys)"
  by (simp add: quiet_def)

lemma quiet_rev [simp]: "quiet (rev xs) = quiet xs"
  by (simp add: quiet_def)

lemma exit_shape_step:
  assumes "exit_shape k (pc tp) (trace tp)"
  shows "exit_shape k (pc (step sz k a tp)) (trace (step sz k a tp))"
proof (cases a)
  case (Loop r)
  show ?thesis
  proof (cases "pc tp")
    case Spawned
    then show ?thesis using Loop assms readPacket_Spawned [of tp sz k r] by simp
  next
    case LoopTop
    then show ?thesis using Loop assms by (simp add: readPacket_LoopTop quiet_def)
  next
    case Reading
    then show ?thesis using Loop assms
      by (cases k) (auto simp: loop_defs Let_def quiet_def split: option.splits)
  next
    case (Delivering p)
    then show ?thesis using Loop assms
      by (cases "callUpper tp") (simp_all add: readPacket_Delivering quiet_def)
  next
    case Closing
    then show ?thesis using Loop assms by (simp add: readPacket_Closing)
  next
    case Sending
    then show ?thesis using Loop assms
      by (cases "transportEnd tp")
         (simp_all add: readPacket_Sending_nil readPacket_Sending_chan)
  qed (use Loop assms in \<open>simp_all add: readPacket_inert\<close>)
qed (use assms in \<open>simp_all add: owner_defs\<close>)

lemma exit_shape_run:
  "exit_shape k (pc tp) (trace tp) \<Longrightarrow>
   exit_shape k (pc (run sz k as tp)) (trace (run sz k as tp))"
  by (induction as arbitrary: tp) (simp_all add: exit_shape_step del: step.simps)

lemma sent_last_rev:
  "sent_last k (rev t) \<Longrightarrow>
   \<exists>before ch. t = before @ [Close (conn_of k), Send ch (end_of k)] \<and> quiet before"
proof -
  assume a: "sent_last k (rev t)"
  then obtain ch v r1 where 1: "rev t = Send ch v # r1" "v = end_of k" "closed_last k r1"
    by (cases "(k, rev t)" rule: sent_last.cases) auto
  then obtain c r2 where 2: "r1 = Close c # r2" "c = conn_of k" "quiet r2"
    by (cases "(k, r1)" rule: closed_last.cases) auto
  have "t = rev (rev t)" by simp
  also have "\<dots> = rev r2 @ [Close (conn_of k), Send ch (end_of k)]"
    using 1 2 by simp
  finally show ?thesis using 2(3) by (auto simp: quiet_def)
qed

lemma break_exit_closes_then_sends_once:
  assumes "quiet (trace tp)" and "pc tp = Spawned \<or> in_loop (pc tp)"
    and "pc (run sz k as tp) = Terminated"
  shows "\<exists>before ch. trace (run sz k as tp) = before @ [Close (conn_of k), Send ch (end_of k)]
           \<and> quiet before"
proof -
  have "exit_shape k (pc tp) (trace tp)" using assms(1,2) by (cases "pc tp") simp_all
  from exit_shape_run [OF this, of sz as] assms(3) sent_last_rev show ?thesis by simp
qed

text \<open>
  C1 fails on the TCP data loop. With an end channel installed and the stop flag unset,
  a read that returns one byte and no error makes the loop evaluate \<^verbatim>\<open>buf[2:n]\<close> with
  \<open>n = 1\<close>: the goroutine panics, so it leaves the loop having made neither the close of
  its socket nor the send on the end channel, and no later step makes them.
\<close>

theorem tcp_short_read_exits_without_close_or_send:
  "transportEnd listening = Some 1 \<and> rr_err (got [7]) = None \<and>
   pc (run 4 TCPData [Loop timed_out, Loop timed_out, Loop (got [7])] listening) = Panicked \<and>
   trace (run 4 TCPData [Loop timed_out, Loop timed_out, Loop (got [7])] listening) =
     [SetReadDeadline DataConn 20, Read DataConn] \<and>
   pc (run 4 TCPData [Loop timed_out, Loop timed_out, Loop (got [7]),
         Loop timed_out, OwnerCloseRecv, Loop timed_out, Loop timed_out] listening) = Panicked \<and>
   trace (run 4 TCPData [Loop timed_out, Loop timed_out, Loop (got [7]),
         Loop timed_out, OwnerCloseRecv, Loop timed_out, Loop timed_out] listening) =
     [SetReadDeadline DataConn 20, Read DataConn]"
  by (simp add: eval_defs)

section \<open>The bounds of \<^verbatim>\<open>inUse\<close>\<close>

text \<open>
  Every packet a multicast loop constructs, and every packet the TCP loop constructs
  from a read of at least two bytes, has \<^verbatim>\<open>inUse\<close> between zero and the capacity of
  its buffer.
\<close>

lemma pkt_ok_Reading:
  assumes "pkt_ok sz k tp" and "pc tp = Reading"
  shows "pkt_ok sz k (readPacket sz k r tp)"
proof (cases k)
  case TCPData
  then show ?thesis using assms
    by (auto simp: pkt_ok_def TransportTCP_readDataPacket_def Let_def inUse_in_buffer_def
        newDataPacket_def go_slice_def copied_def split: option.splits if_splits)
next
  case McastData
  then show ?thesis using assms
    by (auto simp: pkt_ok_def TransportMulticast_readDataPacket_def Let_def
        inUse_in_buffer_def newDataPacket_def go_slice_def copied_def
        split: option.splits if_splits)
next
  case McastCtrl
  then show ?thesis using assms
    by (auto simp: pkt_ok_def TransportMulticast_readCtrlPacket_def Let_def
        inUse_in_buffer_def newCtrlPacket_def go_slice_def copied_def
        split: option.splits if_splits)
qed

lemma pkt_ok_step: "pkt_ok sz k tp \<Longrightarrow> pkt_ok sz k (step sz k a tp)"
proof (cases a)
  case (Loop r)
  assume ok: "pkt_ok sz k tp"
  show ?thesis
  proof (cases "pc tp")
    case Spawned
    then show ?thesis using Loop ok readPacket_Spawned [of tp sz k r]
      by (auto simp: pkt_ok_def split: option.splits)
  next
    case LoopTop
    then show ?thesis using Loop ok
      by (auto simp: readPacket_LoopTop pkt_ok_def split: option.splits)
  next
    case Reading
    then show ?thesis using Loop ok by (simp add: pkt_ok_Reading)
  next
    case (Delivering p)
    then show ?thesis using Loop ok
      by (cases "callUpper tp") (auto simp: readPacket_Delivering pkt_ok_def split: option.splits)
  next
    case Closing
    then show ?thesis using Loop ok
      by (auto simp: readPacket_Closing pkt_ok_def split: option.splits)
  next
    case Sending
    then show ?thesis using Loop ok
      by (cases "transportEnd tp")
         (auto simp: readPacket_Sending_nil readPacket_Sending_chan pkt_ok_def
            split: option.splits)
  qed (use Loop ok in \<open>simp_all add: readPacket_inert\<close>)
qed (auto simp: owner_defs pkt_ok_def split: option.splits)

lemma pkt_ok_run: "pkt_ok sz k tp \<Longrightarrow> pkt_ok sz k (run sz k as tp)"
  by (induction as arbitrary: tp) (simp_all add: pkt_ok_step del: step.simps)


lemma constructed_packet_inUse_in_buffer:
  assumes "pc tp = Spawned" and "rpkt tp = None" and "rpkt (run sz k as tp) = Some p"
    and "k \<noteq> TCPData \<or> pc (run sz k as tp) \<noteq> Panicked"
  shows "0 \<le> inUse p \<and> inUse p \<le> int (length (buffer p))"
proof -
  have "pkt_ok sz k tp" using assms(1,2) by (simp add: pkt_ok_def)
  from pkt_ok_run [OF this, of as] assms(3,4) show ?thesis
    by (auto simp: pkt_ok_def inUse_in_buffer_def split: option.splits)
qed

text \<open>
  C3 fails on the TCP data loop. A read that returns one byte and no error is a
  successful read of \<open>n = 1\<close> bytes; the loop constructs a packet and assigns
  \<^verbatim>\<open>rp.inUse = n-2\<close>, which is \<open>-1\<close>, before it panics in \<^verbatim>\<open>buf[2:n]\<close>.
\<close>

theorem tcp_short_read_sets_negative_inUse:
  "rr_err (got [7]) = None \<and> copied (replicate 4 (0::byte)) (rr_data (got [7])) = 1 \<and>
   rpkt (run 4 TCPData [Loop timed_out, Loop timed_out, Loop (got [7])] listening) =
     Some \<lparr>buffer = [0, 0, 0, 0], inUse = - 1,
           fromAddr = \<lparr>IpAddr = [10, 0, 0, 7], DataPort = 40000, CtrlPort = 0\<rparr>\<rparr>"
  by (simp add: eval_defs eval_nat_numeral)

section \<open>Socket setup\<close>

text \<open>
  The multicast transport returns a failure of the bind or of the group join to its
  caller and starts no loop then. The TCP transport always returns the nil error; after a
  failed listen its goroutine returns and no loop is started.
\<close>

lemma mcast_setup_failure_is_returned:
  assumes "ListenPacket_err os \<noteq> None \<or> JoinGroup_err os \<noteq> None"
  shows "fst (TransportMulticast_ListenOnTransports os tp) \<noteq> None \<and>
         pc (snd (TransportMulticast_ListenOnTransports os tp)) = pc tp"
  using assms
  by (auto simp: TransportMulticast_ListenOnTransports_def Let_def split: option.splits)

lemma mcast_setup_success_starts_loop:
  assumes "ListenPacket_err os = None" and "JoinGroup_err os = None"
  shows "TransportMulticast_ListenOnTransports os tp =
           (None, tp\<lparr>hasDataConn := True, pc := Spawned\<rparr>)"
  using assms by (simp add: TransportMulticast_ListenOnTransports_def)

lemma mcast_setup2_failure_is_returned:
  assumes "ListenMulticastUDP_err os \<noteq> None"
  shows "fst (TransportMulticast_ListenOnTransports2 os tp) = ListenMulticastUDP_err os \<and>
         pc (snd (TransportMulticast_ListenOnTransports2 os tp)) = pc tp"
  using assms
  by (auto simp: TransportMulticast_ListenOnTransports2_def split: option.splits)

lemma tcp_setup_returns_nil: "fst (TransportTCP_ListenOnTransports tp) = None"
  by (simp add: TransportTCP_ListenOnTransports_def)

lemma tcp_listen_failure_starts_no_loop:
  assumes "ListenTCP_err os \<noteq> None"
  shows "pc (TransportTCP_listen_goroutine os (snd (TransportTCP_ListenOnTransports tp))) = pc tp"
  using assms
  by (auto simp: TransportTCP_ListenOnTransports_def TransportTCP_listen_goroutine_def
      split: option.splits if_splits)

text \<open>
  C4 fails on the TCP transport. When \<^verbatim>\<open>ListenTCP\<close> fails, \<^verbatim>\<open>ListenOnTransports\<close>
  has returned the nil error: the failure stays in the goroutine, which returns without
  starting a receive loop. The multicast transport returns the same failure, wrapped.
\<close>

theorem tcp_listen_failure_is_not_returned:
  "fst (TransportTCP_ListenOnTransports new_transport) = None \<and>
   pc (TransportTCP_listen_goroutine
         \<lparr>ListenTCP_err = Some (NetError False), AcceptTCP_ok = False,
          ResolveTCPAddr_res = None\<rparr>
         (snd (TransportTCP_ListenOnTransports new_transport))) = Idle \<and>
   listener (TransportTCP_listen_goroutine
         \<lparr>ListenTCP_err = Some (NetError False), AcceptTCP_ok = False,
          ResolveTCPAddr_res = None\<rparr>
         (snd (TransportTCP_ListenOnTransports new_transport))) = ListenerReturned \<and>
   fst (TransportMulticast_ListenOnTransports
         \<lparr>ListenPacket_err = Some (NetError False), JoinGroup_err = None, SetTOS_err = None\<rparr>
         new_transport) = Some (Wrapped ''ListenPacket'' (NetError False))"
  by (simp add: TransportTCP_ListenOnTransports_def TransportTCP_listen_goroutine_def
      TransportMulticast_ListenOnTransports_def new_transport_def)
end
